theory Spec2Isabelle
  imports Main "HOL-Library.Word"
begin

section \<open>UDP hole punching: the rendezvous server and the peer agent\<close>

text \<open>
  The development embeds \<^verbatim>\<open>nat_punch/server.py\<close> and \<^verbatim>\<open>nat_punch/peer.py\<close>.
  Each role is a sequential program on one UDP socket. Its environment is the list of
  things the socket delivers to successive \<^verbatim>\<open>recvfrom\<close> calls; its behaviour is the
  trace of what it does (datagrams sent, lines printed, sleeps, the timeout being set,
  the socket being closed) together with how the run ends: normal exit, an uncaught
  exception, or still blocked in \<^verbatim>\<open>recvfrom\<close> when the delivered input is used up.

  Boundary of the model. \<^verbatim>\<open>bind\<close>, \<^verbatim>\<open>close\<close>, \<^verbatim>\<open>print\<close> and the system call behind
  \<^verbatim>\<open>sendto\<close> are taken to succeed (the failures of the operating system are not
  modelled); what Python itself checks before the system call (the destination of
  \<^verbatim>\<open>sendto\<close>, the codecs, \<^verbatim>\<open>int\<close>, tuple unpacking) is modelled, each exception being
  a value of type \<open>error\<close>. What the conversion and the resolution of a host name
  answer is not a matter of the program: it is a parameter \<open>names\<close> of every function
  that sends, and nothing is assumed of it. The peer is modelled from line 13 on, with
  the three values that lines 9 to 11 read from the command line as parameters.
\<close>

subsection \<open>Python values: bytes, text, exceptions\<close>

text \<open>
  A \<^verbatim>\<open>bytes\<close> object is a list of 8-bit characters, a \<^verbatim>\<open>str\<close> a list of Unicode code
  points. A source address as \<^verbatim>\<open>recvfrom\<close> reports it on an \<^verbatim>\<open>AF_INET\<close> socket is four
  octets and a 16-bit port; \<open>py_addr\<close> below is the \<^verbatim>\<open>(host, port)\<close> tuple Python makes
  of it.
\<close>

type_synonym bytes = "char list"
type_synonym str = "nat list"
type_synonym ipv4 = "8 word \<times> 8 word \<times> 8 word \<times> 8 word"
type_synonym sockaddr = "ipv4 \<times> 16 word"
type_synonym pyaddr = "str \<times> int"

datatype error =
    UnicodeDecodeError
  | UnicodeEncodeError
  | ValueError
  | OverflowError
  | IndexError
  | KeyError
  | TypeError
  | Gaierror

definition ascii :: "string \<Rightarrow> str" where
  \<comment> \<open>a text literal of the source\<close>
  "ascii s = map of_char s"

subsubsection \<open>\<^verbatim>\<open>bytes.decode()\<close>: strict UTF-8\<close>

definition cont :: "nat \<Rightarrow> bool" where
  "cont b \<longleftrightarrow> 0x80 \<le> b \<and> b \<le> 0xBF"

fun utf8_decode :: "nat list \<Rightarrow> str option" where
  "utf8_decode [] = Some []"
| "utf8_decode (b # bs) =
    (if b < 0x80 then map_option ((#) b) (utf8_decode bs)
     else if 0xC2 \<le> b \<and> b \<le> 0xDF then
       (case bs of
          c1 # r \<Rightarrow>
            if cont c1
            then map_option ((#) ((b - 0xC0) * 64 + (c1 - 0x80))) (utf8_decode r)
            else None
        | _ \<Rightarrow> None)
     else if 0xE0 \<le> b \<and> b \<le> 0xEF then
       (case bs of
          c1 # c2 # r \<Rightarrow>
            if (if b = 0xE0 then 0xA0 else 0x80) \<le> c1
               \<and> c1 \<le> (if b = 0xED then 0x9F else 0xBF) \<and> cont c2
            then map_option
                   ((#) ((b - 0xE0) * 4096 + (c1 - 0x80) * 64 + (c2 - 0x80)))
                   (utf8_decode r)
            else None
        | _ \<Rightarrow> None)
     else if 0xF0 \<le> b \<and> b \<le> 0xF4 then
       (case bs of
          c1 # c2 # c3 # r \<Rightarrow>
            if (if b = 0xF0 then 0x90 else 0x80) \<le> c1
               \<and> c1 \<le> (if b = 0xF4 then 0x8F else 0xBF) \<and> cont c2 \<and> cont c3
            then map_option
                   ((#) ((b - 0xF0) * 262144 + (c1 - 0x80) * 4096
                         + (c2 - 0x80) * 64 + (c3 - 0x80)))
                   (utf8_decode r)
            else None
        | _ \<Rightarrow> None)
     else None)"

definition decode :: "bytes \<Rightarrow> error + str" where
  "decode data =
     (case utf8_decode (map of_char data) of
        None \<Rightarrow> Inl UnicodeDecodeError
      | Some s \<Rightarrow> Inr s)"

subsubsection \<open>\<^verbatim>\<open>str.encode()\<close>: UTF-8, refusing surrogates\<close>

text \<open>
  A \<^verbatim>\<open>str\<close> holds code points up to \<open>0x10FFFF\<close>; the surrogates \<open>0xD800\<close> to \<open>0xDFFF\<close>
  (which \<^verbatim>\<open>sys.argv\<close> can contain) make \<^verbatim>\<open>encode\<close> raise. A number above \<open>0x10FFFF\<close> is
  no code point; the encoder refuses it too.
\<close>

definition enc_cp :: "nat \<Rightarrow> bytes option" where
  "enc_cp c =
     (if c < 0x80 then Some [char_of c]
      else if c < 0x800 then Some [char_of (0xC0 + c div 64), char_of (0x80 + c mod 64)]
      else if 0xD800 \<le> c \<and> c \<le> 0xDFFF then None
      else if c < 0x10000 then
        Some [char_of (0xE0 + c div 4096), char_of (0x80 + c div 64 mod 64),
              char_of (0x80 + c mod 64)]
      else if c < 0x110000 then
        Some [char_of (0xF0 + c div 262144), char_of (0x80 + c div 4096 mod 64),
              char_of (0x80 + c div 64 mod 64), char_of (0x80 + c mod 64)]
      else None)"

fun utf8_encode :: "str \<Rightarrow> bytes option" where
  "utf8_encode [] = Some []"
| "utf8_encode (c # cs) =
     (case enc_cp c of
        None \<Rightarrow> None
      | Some b \<Rightarrow> map_option ((@) b) (utf8_encode cs))"

definition encode :: "str \<Rightarrow> error + bytes" where
  "encode s =
     (case utf8_encode s of
        None \<Rightarrow> Inl UnicodeEncodeError
      | Some b \<Rightarrow> Inr b)"

subsubsection \<open>\<^verbatim>\<open>str.strip()\<close>, \<^verbatim>\<open>str.split()\<close>, \<^verbatim>\<open>str.startswith\<close>\<close>

definition isspace :: "nat \<Rightarrow> bool" where
  \<comment> \<open>the code points for which \<^verbatim>\<open>str.isspace\<close> holds\<close>
  "isspace c \<longleftrightarrow>
     (0x09 \<le> c \<and> c \<le> 0x0D) \<or> (0x1C \<le> c \<and> c \<le> 0x20) \<or> c = 0x85 \<or> c = 0xA0
     \<or> c = 0x1680 \<or> (0x2000 \<le> c \<and> c \<le> 0x200A) \<or> c = 0x2028 \<or> c = 0x2029
     \<or> c = 0x202F \<or> c = 0x205F \<or> c = 0x3000"

definition strip :: "str \<Rightarrow> str" where
  "strip s = rev (dropWhile isspace (rev (dropWhile isspace s)))"

fun split_from :: "str \<Rightarrow> str \<Rightarrow> str list" where
  \<comment> \<open>\<open>cur\<close> is the field being read\<close>
  "split_from cur [] = (if cur = [] then [] else [cur])"
| "split_from cur (c # cs) =
     (if isspace c
      then (if cur = [] then split_from [] cs else cur # split_from [] cs)
      else split_from (cur @ [c]) cs)"

definition split :: "str \<Rightarrow> str list" where
  "split s = split_from [] s"

definition startswith :: "str \<Rightarrow> str \<Rightarrow> bool" where
  "startswith s p \<longleftrightarrow> take (length p) s = p"

subsubsection \<open>\<^verbatim>\<open>int(str)\<close> and the decimal text of an integer\<close>

text \<open>
  \<^verbatim>\<open>int\<close> accepts surrounding white space, one sign, and decimal digits of any script
  with single underscores between digits. \<open>nd_zeros\<close> lists the digit zero of every
  run of decimal digits (Unicode 14, the table of CPython 3.11); the nine code points
  after a zero are the digits one to nine. The limit on the number of digits (4300 by
  default) is not modelled: a datagram of at most 1024 bytes cannot reach it.
\<close>

definition nd_zeros :: "nat list" where
  "nd_zeros =
    [0x30, 0x660, 0x6F0, 0x7C0, 0x966, 0x9E6, 0xA66, 0xAE6, 0xB66, 0xBE6, 0xC66, 0xCE6,
     0xD66, 0xDE6, 0xE50, 0xED0, 0xF20, 0x1040, 0x1090, 0x17E0, 0x1810, 0x1946, 0x19D0,
     0x1A80, 0x1A90, 0x1B50, 0x1BB0, 0x1C40, 0x1C50, 0xA620, 0xA8D0, 0xA900, 0xA9D0,
     0xA9F0, 0xAA50, 0xABF0, 0xFF10, 0x104A0, 0x10D30, 0x11066, 0x110F0, 0x11136,
     0x111D0, 0x112F0, 0x11450, 0x114D0, 0x11650, 0x116C0, 0x11730, 0x118E0, 0x11950,
     0x11C50, 0x11D50, 0x11DA0, 0x16A60, 0x16AC0, 0x16B50, 0x1D7CE, 0x1D7D8, 0x1D7E2,
     0x1D7EC, 0x1D7F6, 0x1E140, 0x1E2F0, 0x1E950, 0x1FBF0]"

definition todecimal :: "nat \<Rightarrow> nat option" where
  "todecimal c =
     (case filter (\<lambda>z. z \<le> c \<and> c < z + 10) nd_zeros of
        [] \<Rightarrow> None
      | z # _ \<Rightarrow> Some (c - z))"

fun more_digits :: "nat \<Rightarrow> str \<Rightarrow> nat option" where
  \<comment> \<open>after a digit: the end, a digit, or one underscore and a digit\<close>
  "more_digits acc [] = Some acc"
| "more_digits acc (c # cs) =
     (if c = 0x5F then
        (case cs of
           [] \<Rightarrow> None
         | d # ds \<Rightarrow>
             (case todecimal d of
                None \<Rightarrow> None
              | Some v \<Rightarrow> more_digits (acc * 10 + v) ds))
      else
        (case todecimal c of
           None \<Rightarrow> None
         | Some v \<Rightarrow> more_digits (acc * 10 + v) cs))"

definition unsigned :: "str \<Rightarrow> nat option" where
  "unsigned s =
     (case s of
        [] \<Rightarrow> None
      | c # cs \<Rightarrow> (case todecimal c of None \<Rightarrow> None | Some v \<Rightarrow> more_digits v cs))"

definition int_space :: "nat \<Rightarrow> bool" where
  \<comment> \<open>what \<^verbatim>\<open>int\<close> skips at both ends: ASCII white space, and other white space from 127 on\<close>
  "int_space c \<longleftrightarrow> (0x09 \<le> c \<and> c \<le> 0x0D) \<or> c = 0x20 \<or> (127 \<le> c \<and> isspace c)"

definition py_int :: "str \<Rightarrow> error + int" where
  "py_int s =
     (let t = rev (dropWhile int_space (rev (dropWhile int_space s)));
          r = (case t of
                 [] \<Rightarrow> None
               | c # cs \<Rightarrow>
                   if c = 0x2D then map_option (\<lambda>n. - int n) (unsigned cs)
                   else if c = 0x2B then map_option int (unsigned cs)
                   else map_option int (unsigned t))
      in case r of None \<Rightarrow> Inl ValueError | Some i \<Rightarrow> Inr i)"

fun str_nat :: "nat \<Rightarrow> str" where
  "str_nat n = (if n < 10 then [0x30 + n] else str_nat (n div 10) @ [0x30 + n mod 10])"

declare str_nat.simps [simp del]

definition str_int :: "int \<Rightarrow> str" where
  \<comment> \<open>\<^verbatim>\<open>f"{i}"\<close> for an integer\<close>
  "str_int i = (if i < 0 then 0x2D # str_nat (nat (- i)) else str_nat (nat i))"

subsubsection \<open>Socket addresses\<close>

definition host_str :: "ipv4 \<Rightarrow> str" where
  \<comment> \<open>dotted decimal\<close>
  "host_str ip =
     (case ip of (a, b, c, d) \<Rightarrow>
        str_nat (unat a) @ ascii ''.'' @ str_nat (unat b) @ ascii ''.''
        @ str_nat (unat c) @ ascii ''.'' @ str_nat (unat d))"

definition py_addr :: "sockaddr \<Rightarrow> pyaddr" where
  "py_addr a = (host_str (fst a), uint (snd a))"

definition str_addr :: "pyaddr \<Rightarrow> str" where
  \<comment> \<open>\<^verbatim>\<open>f"{addr}"\<close> for the tuple of a dotted-decimal host and a port\<close>
  "str_addr a = ascii ''('' @ [0x27] @ fst a @ [0x27] @ ascii '', '' @ str_int (snd a) @ ascii '')''"

text \<open>
  The hosts that need no name service: the dotted-decimal texts of four octets, each
  written without leading zero, which \<^verbatim>\<open>inet_pton\<close> reads. Python tries this reading
  before any lookup.
\<close>

fun fields_from :: "nat \<Rightarrow> str \<Rightarrow> str \<Rightarrow> str list" where
  \<comment> \<open>the fields between the separators, empty ones kept; \<open>cur\<close> is the field being read\<close>
  "fields_from sep cur [] = [cur]"
| "fields_from sep cur (c # cs) =
     (if c = sep then cur # fields_from sep [] cs else fields_from sep (cur @ [c]) cs)"

definition decimal_value :: "str \<Rightarrow> nat" where
  "decimal_value s = foldl (\<lambda>acc c. acc * 10 + (c - 0x30)) 0 s"

definition octet :: "str \<Rightarrow> bool" where
  \<comment> \<open>the decimal text of a number below 256, as \<open>str_nat\<close> writes it\<close>
  "octet s \<longleftrightarrow> decimal_value s < 256 \<and> str_nat (decimal_value s) = s"

definition numeric_host :: "str \<Rightarrow> bool" where
  "numeric_host host \<longleftrightarrow>
     (case fields_from 0x2E [] host of
        [a, b, c, d] \<Rightarrow> octet a \<and> octet b \<and> octet c \<and> octet d
      | _ \<Rightarrow> False)"

subsection \<open>Runs: a trace and how it ends\<close>

datatype event =
    Send bytes pyaddr  \<comment> \<open>\<^verbatim>\<open>sock.sendto(payload, (host, port))\<close>\<close>
  | Print str  \<comment> \<open>one line on standard output\<close>
  | Sleep_ms nat  \<comment> \<open>\<^verbatim>\<open>time.sleep\<close>, in milliseconds\<close>
  | Settimeout nat  \<comment> \<open>\<^verbatim>\<open>sock.settimeout\<close>, in seconds\<close>
  | Close  \<comment> \<open>\<^verbatim>\<open>sock.close()\<close>\<close>

datatype stop =
    Crashed error  \<comment> \<open>an exception nobody catches ends the process\<close>
  | Blocked  \<comment> \<open>still inside \<^verbatim>\<open>recvfrom\<close>: nothing more was delivered\<close>

type_synonym 'a run = "event list \<times> (stop + 'a)"

definition ok :: "'a \<Rightarrow> 'a run" where
  "ok x = ([], Inr x)"

definition emit :: "event \<Rightarrow> unit run" where
  "emit e = ([e], Inr ())"

definition raise :: "error \<Rightarrow> 'a run" where
  "raise e = ([], Inl (Crashed e))"

definition lift :: "error + 'a \<Rightarrow> 'a run" where
  \<comment> \<open>a pure computation that may raise\<close>
  "lift r = (case r of Inl e \<Rightarrow> raise e | Inr x \<Rightarrow> ok x)"

definition and_then :: "'a run \<Rightarrow> ('a \<Rightarrow> 'b run) \<Rightarrow> 'b run" where
  \<comment> \<open>sequencing: a stop ends the run, the trace so far is kept\<close>
  "and_then m f =
     (case m of
        (tr, Inl s) \<Rightarrow> (tr, Inl s)
      | (tr, Inr x) \<Rightarrow> (case f x of (tr', r) \<Rightarrow> (tr @ tr', r)))"

text \<open>
  \<^verbatim>\<open>sock.sendto(payload, (host, port))\<close> checks its destination before it sends, in this
  order: the host is converted (a host with a NUL character, or one that the IDNA codec
  refuses, raises); the port must fit a C \<^verbatim>\<open>int\<close> (\<^verbatim>\<open>OverflowError\<close>); the host is
  resolved (\<^verbatim>\<open>socket.gaierror\<close> for a name that does not resolve); the port must lie in
  0..65535 (\<^verbatim>\<open>OverflowError\<close>). A numeric host passes conversion and resolution in every
  environment; for any other host, \<open>names\<close> says what the environment answers.
\<close>

datatype lookup =
    Rejected error  \<comment> \<open>the conversion of the host raises\<close>
  | Unresolved error  \<comment> \<open>the resolution of the host raises\<close>
  | Resolved

definition getsockaddrarg :: "(str \<Rightarrow> lookup) \<Rightarrow> pyaddr \<Rightarrow> error option" where
  \<comment> \<open>the exception that the check of the destination raises, if any\<close>
  "getsockaddrarg names addr =
     (case addr of (host, port) \<Rightarrow>
        let answer = (if numeric_host host then Resolved else names host) in
        (case answer of
           Rejected e \<Rightarrow> Some e
         | _ \<Rightarrow>
             if port < - 2147483648 \<or> 2147483647 < port then Some OverflowError
             else
               (case answer of
                  Unresolved e \<Rightarrow> Some e
                | _ \<Rightarrow> if port < 0 \<or> 65535 < port then Some OverflowError else None)))"

definition sendto :: "(str \<Rightarrow> lookup) \<Rightarrow> bytes \<Rightarrow> pyaddr \<Rightarrow> unit run" where
  "sendto names payload addr =
     (case getsockaddrarg names addr of
        Some e \<Rightarrow> raise e
      | None \<Rightarrow> emit (Send payload addr))"

definition no_names :: "str \<Rightarrow> lookup" where
  \<comment> \<open>an environment without name service: only numeric hosts can be sent to\<close>
  "no_names host = (if 0 \<in> set host then Rejected TypeError else Unresolved Gaierror)"

definition recvfrom :: "bytes \<times> sockaddr \<Rightarrow> bytes \<times> sockaddr" where
  \<comment> \<open>\<^verbatim>\<open>sock.recvfrom(1024)\<close>: what is beyond 1024 bytes of a datagram is dropped\<close>
  "recvfrom d = (take 1024 (fst d), snd d)"

subsection \<open>The rendezvous server (\<^verbatim>\<open>server.py\<close>)\<close>

text \<open>
  \<^verbatim>\<open>peers\<close> is a dictionary; a Python dictionary keeps its keys in the order of their
  first insertion, which \<^verbatim>\<open>list(peers.keys())\<close> reads, so it is an association list
  with distinct keys. \<open>dict_set\<close> is \<^verbatim>\<open>peers[k] = v\<close>, \<open>dict_get\<close> is \<^verbatim>\<open>peers[k]\<close>.
\<close>

type_synonym registry = "(str \<times> sockaddr) list"

fun dict_set :: "registry \<Rightarrow> str \<Rightarrow> sockaddr \<Rightarrow> registry" where
  "dict_set [] k v = [(k, v)]"
| "dict_set ((k', v') # kvs) k v =
     (if k' = k then (k', v) # kvs else (k', v') # dict_set kvs k v)"

definition dict_get :: "registry \<Rightarrow> str \<Rightarrow> error + sockaddr" where
  "dict_get peers k = (case map_of peers k of None \<Rightarrow> Inl KeyError | Some v \<Rightarrow> Inr v)"

text \<open>
  The receive loop, lines 11 to 15. Its result is the registry with which the loop was
  left and the datagrams not yet received.
\<close>

fun server_loop :: "registry \<Rightarrow> (bytes \<times> sockaddr) list \<Rightarrow> (registry \<times> (bytes \<times> sockaddr) list) run" where
  "server_loop peers ds =
     (if length peers < 2 then
        (case ds of
           [] \<Rightarrow> ([], Inl Blocked)
         | d # rest \<Rightarrow>
             (case recvfrom d of (data, addr) \<Rightarrow>
                and_then (lift (decode data)) (\<lambda>text.
                  let peer_id = strip text in
                  and_then (emit (Print (ascii ''got '' @ peer_id @ ascii '' from ''
                                         @ str_addr (py_addr addr)))) (\<lambda>_.
                  server_loop (dict_set peers peer_id addr) rest))))
      else ok (peers, ds))"

declare server_loop.simps [simp del]

definition introduction :: "str \<Rightarrow> sockaddr \<Rightarrow> error + bytes" where
  \<comment> \<open>\<^verbatim>\<open>f"{id} {addr[0]} {addr[1]}".encode()\<close>\<close>
  "introduction peer_id addr =
     encode (peer_id @ ascii '' '' @ fst (py_addr addr) @ ascii '' ''
             @ str_int (snd (py_addr addr)))"

definition introduce :: "(str \<Rightarrow> lookup) \<Rightarrow> registry \<Rightarrow> unit run" where
  \<comment> \<open>lines 16 to 22\<close>
  "introduce names peers =
     (case map fst peers of
        a_id # b_id # _ \<Rightarrow>
          and_then (lift (dict_get peers a_id)) (\<lambda>a_addr.
          and_then (lift (dict_get peers b_id)) (\<lambda>b_addr.
          and_then (lift (introduction b_id b_addr)) (\<lambda>to_a.
          and_then (sendto names to_a (py_addr a_addr)) (\<lambda>_.
          and_then (lift (introduction a_id a_addr)) (\<lambda>to_b.
          and_then (sendto names to_b (py_addr b_addr)) (\<lambda>_.
          and_then (emit (Print (ascii ''introduced '' @ a_id @ ascii '' '' @ b_id))) (\<lambda>_.
          emit Close)))))))
      | _ \<Rightarrow> raise IndexError)"

definition server_main :: "(str \<Rightarrow> lookup) \<Rightarrow> (bytes \<times> sockaddr) list \<Rightarrow> unit run" where
  "server_main names ds =
     and_then (server_loop [] ds) (\<lambda>(peers, rest). introduce names peers)"

subsection \<open>The peer agent (\<^verbatim>\<open>peer.py\<close>)\<close>

text \<open>
  What the peer's socket delivers: a datagram with its source address, or a receive
  window that passes with nothing arriving. A receive without timeout (line 17) waits
  through such windows; once \<^verbatim>\<open>settimeout(5)\<close> is in force (line 27) a window without
  a datagram makes \<^verbatim>\<open>recvfrom\<close> raise \<^verbatim>\<open>socket.timeout\<close>.
\<close>

datatype rx = Datagram bytes sockaddr | Quiet

fun recv_blocking :: "rx list \<Rightarrow> ((bytes \<times> sockaddr) \<times> rx list) run" where
  "recv_blocking [] = ([], Inl Blocked)"
| "recv_blocking (Quiet # rest) = recv_blocking rest"
| "recv_blocking (Datagram data addr # rest) = ok (recvfrom (data, addr), rest)"

definition parse_introduction :: "bytes \<Rightarrow> error + (str \<times> str \<times> int)" where
  \<comment> \<open>lines 18 and 19; unpacking a list that has not three elements raises \<^verbatim>\<open>ValueError\<close>\<close>
  "parse_introduction data =
     (case decode data of
        Inl e \<Rightarrow> Inl e
      | Inr text \<Rightarrow>
          (case split text of
             [other_id, other_ip, other_port] \<Rightarrow>
               (case py_int other_port of
                  Inl e \<Rightarrow> Inl e
                | Inr p \<Rightarrow> Inr (other_id, other_ip, p))
           | _ \<Rightarrow> Inl ValueError))"

definition awaiting :: "rx list \<Rightarrow> ((str \<times> str \<times> int) \<times> rx list) run" where
  \<comment> \<open>lines 17 to 19: one receive, one parse\<close>
  "awaiting evs =
     and_then (recv_blocking evs) (\<lambda>((data, _), rest).
     and_then (lift (parse_introduction data)) (\<lambda>intro.
     ok (intro, rest)))"

definition ping :: "(str \<Rightarrow> lookup) \<Rightarrow> str \<Rightarrow> pyaddr \<Rightarrow> unit run" where
  \<comment> \<open>the body of the loop of lines 23 to 25\<close>
  "ping names peer_id dest =
     and_then (lift (encode (ascii ''ping from '' @ peer_id))) (\<lambda>payload.
     and_then (sendto names payload dest) (\<lambda>_.
     emit (Sleep_ms 500)))"

fun times :: "nat \<Rightarrow> unit run \<Rightarrow> unit run" where
  \<comment> \<open>\<^verbatim>\<open>for _ in range(n)\<close>\<close>
  "times 0 body = ok ()"
| "times (Suc n) body = and_then body (\<lambda>_. times n body)"

definition punching :: "(str \<Rightarrow> lookup) \<Rightarrow> str \<Rightarrow> pyaddr \<Rightarrow> unit run" where
  "punching names peer_id dest = times 3 (ping names peer_id dest)"

fun listening :: "(str \<Rightarrow> lookup) \<Rightarrow> str \<Rightarrow> rx list \<Rightarrow> unit run" where
  \<comment> \<open>lines 28 to 36; \<^verbatim>\<open>socket.timeout\<close> is the one exception caught\<close>
  "listening names peer_id [] = ([], Inl Blocked)"
| "listening names peer_id (Quiet # rest) = ok ()"
| "listening names peer_id (Datagram data src # rest) =
     (case recvfrom (data, src) of (msg, addr) \<Rightarrow>
        and_then (lift (decode msg)) (\<lambda>msg.
        and_then (emit (Print (peer_id @ ascii '' got '' @ [0x22] @ msg @ [0x22]
                               @ ascii '' from '' @ str_addr (py_addr addr)))) (\<lambda>_.
        and_then (if startswith msg (ascii ''ping'')
                  then and_then (lift (encode (ascii ''ack from '' @ peer_id))) (\<lambda>payload.
                       sendto names payload (py_addr addr))
                  else ok ()) (\<lambda>_.
        listening names peer_id rest))))"

definition peer_main ::
  "(str \<Rightarrow> lookup) \<Rightarrow> str \<Rightarrow> str \<Rightarrow> int \<Rightarrow> rx list \<Rightarrow> unit run" where
  \<comment> \<open>lines 13 to 37\<close>
  "peer_main names peer_id server_ip server_port evs =
     and_then (lift (encode peer_id)) (\<lambda>registration.
     and_then (sendto names registration (server_ip, server_port)) (\<lambda>_.
     and_then (awaiting evs) (\<lambda>((other_id, other_ip, other_port), rest).
     and_then (emit (Print (peer_id @ ascii '' learned '' @ other_id @ ascii '' at ''
                            @ other_ip @ ascii '':'' @ str_int other_port))) (\<lambda>_.
     and_then (punching names peer_id (other_ip, other_port)) (\<lambda>_.
     and_then (emit (Settimeout 5)) (\<lambda>_.
     and_then (listening names peer_id rest) (\<lambda>_.
     emit Close)))))))"

subsection \<open>Vocabulary of the statements\<close>

fun is_send :: "event \<Rightarrow> bool" where
  "is_send (Send payload dest) = True"
| "is_send e = False"

definition scalar :: "nat \<Rightarrow> bool" where
  \<comment> \<open>a code point that UTF-8 can carry\<close>
  "scalar c \<longleftrightarrow> c < 0xD800 \<or> (0xDFFF < c \<and> c < 0x110000)"

definition encodable :: "str \<Rightarrow> bool" where
  "encodable s \<longleftrightarrow> list_all scalar s"

definition utf8 :: "bytes \<Rightarrow> bool" where
  \<comment> \<open>what \<^verbatim>\<open>recvfrom(1024)\<close> returns of the datagram decodes\<close>
  "utf8 data \<longleftrightarrow> (case decode (take 1024 data) of Inl e \<Rightarrow> False | Inr text \<Rightarrow> True)"

definition registers :: "bytes \<times> sockaddr \<Rightarrow> str \<Rightarrow> bool" where
  \<comment> \<open>lines 12 and 13 of the server read the id \<open>i\<close> from the datagram\<close>
  "registers d i \<longleftrightarrow>
     (case decode (fst (recvfrom d)) of Inl e \<Rightarrow> False | Inr text \<Rightarrow> strip text = i)"

definition got :: "str \<Rightarrow> bytes \<times> sockaddr \<Rightarrow> event" where
  \<comment> \<open>the line 14 of the server prints for the id \<open>i\<close> read from the datagram \<open>d\<close>\<close>
  "got i d = Print (ascii ''got '' @ i @ ascii '' from '' @ str_addr (py_addr (snd d)))"

definition dgrams :: "(bytes \<times> sockaddr) list \<Rightarrow> rx list" where
  \<comment> \<open>datagrams arriving one after the other, no quiet window between them\<close>
  "dgrams ds = map (\<lambda>d. Datagram (fst d) (snd d)) ds"

definition text_of :: "bytes \<Rightarrow> str" where
  \<comment> \<open>the text of what \<^verbatim>\<open>recvfrom(1024)\<close> returns of a datagram that decodes\<close>
  "text_of data = (case decode (take 1024 data) of Inl e \<Rightarrow> [] | Inr text \<Rightarrow> text)"

definition heard :: "str \<Rightarrow> bytes \<times> sockaddr \<Rightarrow> event" where
  \<comment> \<open>the line 32 of the peer prints for the datagram \<open>d\<close>\<close>
  "heard peer_id d =
     Print (peer_id @ ascii '' got '' @ [0x22] @ text_of (fst d) @ [0x22]
            @ ascii '' from '' @ str_addr (py_addr (snd d)))"

definition pinged :: "bytes \<times> sockaddr \<Rightarrow> bool" where
  \<comment> \<open>the test of line 33 on the datagram \<open>d\<close>\<close>
  "pinged d \<longleftrightarrow> startswith (text_of (fst d)) (ascii ''ping'')"

definition learned :: "str \<Rightarrow> str \<times> str \<times> int \<Rightarrow> event" where
  \<comment> \<open>the line 20 of the peer prints\<close>
  "learned peer_id intro =
     (case intro of (other_id, other_ip, other_port) \<Rightarrow>
        Print (peer_id @ ascii '' learned '' @ other_id @ ascii '' at ''
               @ other_ip @ ascii '':'' @ str_int other_port))"

definition ascii_bytes :: "bytes \<Rightarrow> bool" where
  "ascii_bytes s \<longleftrightarrow> list_all (\<lambda>c. of_char c < (128::nat)) s"

section \<open>Properties\<close>

subsection \<open>Sequencing\<close>

lemma and_then_ok [simp]: "and_then (ok x) f = f x"
  by (simp add: and_then_def ok_def split: prod.splits)

lemma and_then_raise [simp]: "and_then (raise e) f = raise e"
  by (simp add: and_then_def raise_def)

lemma and_then_emit [simp]: "and_then (emit e) f = (e # fst (f ()), snd (f ()))"
  by (simp add: and_then_def emit_def split: prod.splits)

lemma and_then_stop [simp]: "and_then (tr, Inl s) f = (tr, Inl s)"
  by (simp add: and_then_def)

lemma and_then_cont: "and_then (tr, Inr x) f = (tr @ fst (f x), snd (f x))"
  by (simp add: and_then_def split: prod.splits)

lemma lift_Inr [simp]: "lift (Inr x) = ok x"
  by (simp add: lift_def)

lemma lift_Inl [simp]: "lift (Inl e) = raise e"
  by (simp add: lift_def)

subsection \<open>The codecs agree on what a text is\<close>

lemma decode_error: "decode data = Inl e \<Longrightarrow> e = UnicodeDecodeError"
  by (auto simp: decode_def split: option.splits)

lemma enc_cp_scalar: "enc_cp c \<noteq> None \<longleftrightarrow> scalar c"
  by (auto simp: enc_cp_def scalar_def)

lemma utf8_encode_scalar: "utf8_encode s \<noteq> None \<longleftrightarrow> (\<forall>c\<in>set s. scalar c)"
  by (induction s) (auto simp: enc_cp_scalar [symmetric] split: option.splits)

lemma utf8_encode_append:
  "utf8_encode (s @ t) =
     (case utf8_encode s of None \<Rightarrow> None | Some x \<Rightarrow> map_option ((@) x) (utf8_encode t))"
proof (induction s)
  case Nil
  show ?case by (cases "utf8_encode t") simp_all
next
  case (Cons c s)
  show ?case
    by (cases "enc_cp c"; cases "utf8_encode s"; cases "utf8_encode t") (simp_all add: Cons)
qed

lemma scalar2:
  "0xC2 \<le> b \<Longrightarrow> b \<le> 0xDF \<Longrightarrow> cont c1 \<Longrightarrow> scalar ((b - 0xC0) * 64 + (c1 - 0x80))"
  unfolding scalar_def cont_def by linarith

lemma scalar3_aux:
  assumes "x \<le> 15" "y \<le> 63" "z \<le> 63" "x = 13 \<longrightarrow> y \<le> 31"
  shows "scalar (x * 4096 + y * 64 + z)"
proof -
  consider "x \<le> 12" | "x = 13" | "14 \<le> x" by linarith
  then show ?thesis
  proof cases
    case 1
    with assms show ?thesis unfolding scalar_def by linarith
  next
    case 2
    with assms show ?thesis unfolding scalar_def by simp
  next
    case 3
    with assms show ?thesis unfolding scalar_def by linarith
  qed
qed

lemma scalar3:
  assumes "0xE0 \<le> b" "b \<le> 0xEF" "(if b = 0xE0 then 0xA0 else 0x80) \<le> c1"
    "c1 \<le> (if b = 0xED then 0x9F else 0xBF)" "cont c2"
  shows "scalar ((b - 0xE0) * 4096 + (c1 - 0x80) * 64 + (c2 - 0x80))"
proof (rule scalar3_aux)
  show "b - 0xE0 \<le> 15" using assms(2) by simp
  show "c1 - 0x80 \<le> 63" using assms(4) by (simp split: if_splits)
  show "c2 - 0x80 \<le> 63" using assms(5) by (auto simp: cont_def)
  show "b - 0xE0 = 13 \<longrightarrow> c1 - 0x80 \<le> 31" using assms(1,4) by (simp split: if_splits)
qed

lemma scalar4_aux:
  assumes "x \<le> 4" "y \<le> 63" "z \<le> 63" "w \<le> 63" "x = 0 \<longrightarrow> 16 \<le> y" "x = 4 \<longrightarrow> y \<le> 15"
  shows "scalar (x * 262144 + y * 4096 + z * 64 + w)"
proof -
  consider "x = 0" | "1 \<le> x \<and> x \<le> 3" | "x = 4" using assms(1) by linarith
  then show ?thesis
  proof cases
    case 1
    with assms show ?thesis unfolding scalar_def by simp
  next
    case 2
    with assms show ?thesis unfolding scalar_def by linarith
  next
    case 3
    with assms show ?thesis unfolding scalar_def by simp
  qed
qed

lemma scalar4:
  assumes "0xF0 \<le> b" "b \<le> 0xF4" "(if b = 0xF0 then 0x90 else 0x80) \<le> c1"
    "c1 \<le> (if b = 0xF4 then 0x8F else 0xBF)" "cont c2" "cont c3"
  shows "scalar ((b - 0xF0) * 262144 + (c1 - 0x80) * 4096 + (c2 - 0x80) * 64 + (c3 - 0x80))"
proof (rule scalar4_aux)
  show "b - 0xF0 \<le> 4" using assms(2) by simp
  show "c1 - 0x80 \<le> 63" using assms(4) by (simp split: if_splits)
  show "c2 - 0x80 \<le> 63" using assms(5) by (auto simp: cont_def)
  show "c3 - 0x80 \<le> 63" using assms(6) by (auto simp: cont_def)
  show "b - 0xF0 = 0 \<longrightarrow> 16 \<le> c1 - 0x80" using assms(1,3) by (simp split: if_splits)
  show "b - 0xF0 = 4 \<longrightarrow> c1 - 0x80 \<le> 15" using assms(1,4) by (simp split: if_splits)
qed

lemma utf8_decode_scalar: "utf8_decode bs = Some s \<Longrightarrow> c \<in> set s \<Longrightarrow> scalar c"
proof (induction bs arbitrary: s rule: utf8_decode.induct)
  case 1
  then show ?case by simp
next
  case (2 b bs)
  consider (one) "b < 0x80"
    | (two) "\<not> b < 0x80" "0xC2 \<le> b \<and> b \<le> 0xDF"
    | (three) "\<not> b < 0x80" "\<not> (0xC2 \<le> b \<and> b \<le> 0xDF)" "0xE0 \<le> b \<and> b \<le> 0xEF"
    | (four) "\<not> b < 0x80" "\<not> (0xC2 \<le> b \<and> b \<le> 0xDF)" "\<not> (0xE0 \<le> b \<and> b \<le> 0xEF)"
    by blast
  then show ?case
  proof cases
    case one
    from "2.prems"(1) one obtain s' where r: "utf8_decode bs = Some s'" and s: "s = b # s'"
      by auto
    have "scalar b" using one by (simp add: scalar_def)
    moreover have "c \<in> set s' \<Longrightarrow> scalar c" using "2.IH"(1) [OF one r] .
    ultimately show ?thesis using s "2.prems"(2) by auto
  next
    case two
    from "2.prems"(1) two obtain c1 r s' where bs: "bs = c1 # r" and c1: "cont c1"
      and r: "utf8_decode r = Some s'" and s: "s = ((b - 0xC0) * 64 + (c1 - 0x80)) # s'"
      by (cases bs) (auto split: if_splits)
    have "scalar ((b - 0xC0) * 64 + (c1 - 0x80))"
      using scalar2 [of b c1] two c1 by blast
    moreover have "c \<in> set s' \<Longrightarrow> scalar c"
      using "2.IH"(2) [OF two(1) two(2) bs c1 r] .
    ultimately show ?thesis using s "2.prems"(2) by auto
  next
    case three
    from "2.prems"(1) three obtain c1 c2 r s' where bs: "bs = c1 # c2 # r"
      and g: "(if b = 0xE0 then 0xA0 else 0x80) \<le> c1
              \<and> c1 \<le> (if b = 0xED then 0x9F else 0xBF) \<and> cont c2"
      and r: "utf8_decode r = Some s'"
      and s: "s = ((b - 0xE0) * 4096 + (c1 - 0x80) * 64 + (c2 - 0x80)) # s'"
      by (simp split: list.splits if_splits)
    have "scalar ((b - 0xE0) * 4096 + (c1 - 0x80) * 64 + (c2 - 0x80))"
      using scalar3 [of b c1 c2] three g by blast
    moreover have "c \<in> set s' \<Longrightarrow> scalar c"
      using "2.IH"(3) [OF three(1) three(2) three(3) bs _ g r] by simp
    ultimately show ?thesis using s "2.prems"(2) by auto
  next
    case four
    from "2.prems"(1) four obtain c1 c2 c3 r s' where bs: "bs = c1 # c2 # c3 # r"
      and b: "0xF0 \<le> b \<and> b \<le> 0xF4"
      and g: "(if b = 0xF0 then 0x90 else 0x80) \<le> c1
              \<and> c1 \<le> (if b = 0xF4 then 0x8F else 0xBF) \<and> cont c2 \<and> cont c3"
      and r: "utf8_decode r = Some s'"
      and s: "s = ((b - 0xF0) * 262144 + (c1 - 0x80) * 4096 + (c2 - 0x80) * 64
                   + (c3 - 0x80)) # s'"
      by (simp split: list.splits if_splits)
    have "scalar ((b - 0xF0) * 262144 + (c1 - 0x80) * 4096 + (c2 - 0x80) * 64 + (c3 - 0x80))"
      using scalar4 [of b c1 c2 c3] b g by blast
    moreover have "c \<in> set s' \<Longrightarrow> scalar c"
      using "2.IH"(4) [OF four(1) four(2) four(3) b bs _ _ g r] by simp
    ultimately show ?thesis using s "2.prems"(2) by auto
  qed
qed

lemma encodable_append [simp]: "encodable (s @ t) \<longleftrightarrow> encodable s \<and> encodable t"
  by (simp add: encodable_def)

lemma encodable_Cons [simp]: "encodable (c # s) \<longleftrightarrow> scalar c \<and> encodable s"
  by (simp add: encodable_def)

lemma encodable_Nil [simp]: "encodable []"
  by (simp add: encodable_def)

lemma encode_encodable: "(\<exists>b. encode s = Inr b) \<longleftrightarrow> encodable s"
  using utf8_encode_scalar [of s]
  by (auto simp: encode_def encodable_def list_all_iff split: option.splits)

lemma encode_not_encodable: "\<not> encodable s \<Longrightarrow> encode s = Inl UnicodeEncodeError"
  using encode_encodable [of s] by (auto simp: encode_def split: option.splits)

lemma encode_append:
  "encode s = Inr x \<Longrightarrow> encode t = Inr y \<Longrightarrow> encode (s @ t) = Inr (x @ y)"
  by (auto simp: encode_def utf8_encode_append split: option.splits)

lemma decode_encodable: "decode data = Inr text \<Longrightarrow> encodable text"
  using utf8_decode_scalar
  by (auto simp: decode_def encodable_def list_all_iff split: option.splits)

lemma encodable_strip: "encodable text \<Longrightarrow> encodable (strip text)"
  by (auto simp: encodable_def strip_def list_all_iff dest!: set_dropWhileD)

lemma encodable_ascii [simp]: "encodable (ascii s)"
proof -
  have "scalar (of_char c)" for c :: char
    using nat_of_char_less_256 [of c] unfolding scalar_def by linarith
  then show ?thesis by (auto simp: encodable_def ascii_def list_all_iff)
qed

lemma encodable_str_nat [simp]: "encodable (str_nat n)"
proof (induction n rule: str_nat.induct)
  case (1 n)
  show ?case
  proof (cases "n < 10")
    case True
    then show ?thesis by (subst str_nat.simps) (simp add: scalar_def)
  next
    case False
    have "n mod 10 < 10" by simp
    then have "scalar (48 + n mod 10)" unfolding scalar_def by linarith
    with False 1 show ?thesis by (subst str_nat.simps) simp
  qed
qed

lemma encodable_str_int [simp]: "encodable (str_int i)"
  by (simp add: str_int_def scalar_def)

lemma encodable_host_str [simp]: "encodable (host_str ip)"
  by (cases ip) (simp add: host_str_def)

subsection \<open>ASCII payloads\<close>

lemma utf8_decode_ascii:
  "list_all (\<lambda>b. b < 128) bs \<Longrightarrow> utf8_decode bs = Some bs"
  by (induction bs) simp_all

lemma decode_ascii: "ascii_bytes s \<Longrightarrow> decode s = Inr (ascii s)"
  using utf8_decode_ascii [of "map of_char s"]
  by (simp add: decode_def ascii_def ascii_bytes_def list_all_iff)

lemma utf8_encode_ascii: "ascii_bytes s \<Longrightarrow> utf8_encode (map of_char s) = Some s"
  by (induction s) (simp_all add: ascii_bytes_def enc_cp_def)

lemma encode_ascii: "ascii_bytes s \<Longrightarrow> encode (ascii s) = Inr s"
  by (simp add: encode_def ascii_def utf8_encode_ascii)

lemma ascii_append: "ascii (s @ t) = ascii s @ ascii t"
  by (simp add: ascii_def)

subsection \<open>The server's receive loop\<close>

lemma introduction_ok: "encodable i \<Longrightarrow> \<exists>m. introduction i a = Inr m"
  unfolding introduction_def by (subst encode_encodable) (simp add: py_addr_def)

text \<open>
  The text of an address that \<^verbatim>\<open>recvfrom\<close> reported is a numeric host, and its port is in
  range: sending to it passes the check in every environment.
\<close>

lemma str_nat_digits: "c \<in> set (str_nat n) \<Longrightarrow> 0x30 \<le> c \<and> c \<le> 0x39"
proof (induction n rule: str_nat.induct)
  case (1 n)
  show ?case
  proof (cases "n < 10")
    case True
    with "1.prems" show ?thesis by (subst (asm) str_nat.simps) simp
  next
    case False
    have "n mod 10 < 10" by simp
    then have last: "0x30 \<le> 0x30 + n mod 10 \<and> 0x30 + n mod 10 \<le> 0x39" by linarith
    from "1.prems" False have "c \<in> set (str_nat (n div 10)) \<or> c = 0x30 + n mod 10"
      by (subst (asm) str_nat.simps) auto
    with "1.IH" [OF False] last show ?thesis by blast
  qed
qed

lemma decimal_value_snoc: "decimal_value (s @ [c]) = decimal_value s * 10 + (c - 0x30)"
  by (simp add: decimal_value_def)

lemma decimal_value_str_nat: "decimal_value (str_nat n) = n"
proof (induction n rule: str_nat.induct)
  case (1 n)
  show ?case
  proof (cases "n < 10")
    case True
    then show ?thesis by (subst str_nat.simps) (simp add: decimal_value_def)
  next
    case False
    have "decimal_value (str_nat n) = decimal_value (str_nat (n div 10)) * 10 + n mod 10"
      using False by (subst str_nat.simps) (simp add: decimal_value_snoc)
    with "1.IH" [OF False] show ?thesis by simp
  qed
qed

lemma octet_str_nat: "n < 256 \<Longrightarrow> octet (str_nat n)"
  by (simp add: octet_def decimal_value_str_nat)

lemma fields_from_field:
  "sep \<notin> set t \<Longrightarrow> fields_from sep cur (t @ sep # rest) = (cur @ t) # fields_from sep [] rest"
  by (induction t arbitrary: cur) auto

lemma fields_from_last: "sep \<notin> set t \<Longrightarrow> fields_from sep cur t = [cur @ t]"
  by (induction t arbitrary: cur) auto

lemma no_dot_str_nat: "0x2E \<notin> set (str_nat n)"
  using str_nat_digits [of "0x2E" n] by auto

lemma numeric_host_str: "numeric_host (host_str ip)"
proof -
  obtain a b c d where ip: "ip = (a, b, c, d)" by (cases ip)
  let ?A = "str_nat (unat a)" and ?B = "str_nat (unat b)"
  let ?C = "str_nat (unat c)" and ?D = "str_nat (unat d)"
  have host: "host_str ip = ?A @ 0x2E # ?B @ 0x2E # ?C @ 0x2E # ?D"
    by (simp add: ip host_str_def ascii_def)
  have "fields_from 0x2E [] (host_str ip) = [?A, ?B, ?C, ?D]"
    unfolding host
    by (simp add: fields_from_field [OF no_dot_str_nat] fields_from_last [OF no_dot_str_nat])
  moreover have "unat x < 256" for x :: "8 word"
    using unsigned_less [of x, where 'a = nat] by simp
  ultimately show ?thesis by (simp add: numeric_host_def octet_str_nat)
qed

lemma getsockaddrarg_numeric:
  "numeric_host host \<Longrightarrow>
   getsockaddrarg names (host, port) =
     (if 0 \<le> port \<and> port \<le> 65535 then None else Some OverflowError)"
  by (simp add: getsockaddrarg_def)

lemma getsockaddrarg_port:
  "port < 0 \<or> 65535 < port \<Longrightarrow> getsockaddrarg names (host, port) \<noteq> None"
  by (auto simp: getsockaddrarg_def Let_def split: lookup.splits)

lemma getsockaddrarg_py_addr: "getsockaddrarg names (py_addr a) = None"
proof -
  have "uint (snd a) < 2 ^ 16" using uint_lt2p [of "snd a"] by simp
  then show ?thesis
    by (simp add: py_addr_def getsockaddrarg_numeric [OF numeric_host_str])
qed

lemma sendto_ok:
  "getsockaddrarg names addr = None \<Longrightarrow> sendto names m addr = emit (Send m addr)"
  by (simp add: sendto_def)

lemma sendto_refused:
  "getsockaddrarg names addr = Some e \<Longrightarrow> sendto names m addr = raise e"
  by (simp add: sendto_def)

lemma sendto_py_addr [simp]: "sendto names m (py_addr a) = emit (Send m (py_addr a))"
  by (simp add: sendto_ok getsockaddrarg_py_addr)

lemma registers_iff:
  "registers (data, addr) i \<longleftrightarrow> (\<exists>text. decode (take 1024 data) = Inr text \<and> strip text = i)"
  by (auto simp: registers_def recvfrom_def split: sum.splits)

lemma registers_encodable: "registers d i \<Longrightarrow> encodable i"
  by (cases d) (auto simp: registers_iff dest: decode_encodable encodable_strip)

lemma utf8_registers: "utf8 (fst d) \<longleftrightarrow> (\<exists>i. registers d i)"
  by (cases d) (auto simp: utf8_def registers_iff split: sum.splits)

lemma is_send_got [simp]: "\<not> is_send (got i d)"
  by (simp add: got_def)

lemma server_loop_full: "2 \<le> length peers \<Longrightarrow> server_loop peers ds = ok (peers, ds)"
  by (simp add: server_loop.simps)

lemma server_loop_empty: "length peers < 2 \<Longrightarrow> server_loop peers [] = ([], Inl Blocked)"
  by (simp add: server_loop.simps)

lemma server_loop_not_utf8:
  "length peers < 2 \<Longrightarrow> \<not> utf8 (fst d) \<Longrightarrow>
   server_loop peers (d # rest) = raise UnicodeDecodeError"
  by (cases d)
    (auto simp: server_loop.simps [of peers "_ # _"] recvfrom_def utf8_def
      split: sum.splits dest: decode_error)

lemma server_loop_registers:
  "length peers < 2 \<Longrightarrow> registers d i \<Longrightarrow>
   server_loop peers (d # rest) =
     (got i d # fst (server_loop (dict_set peers i (snd d)) rest),
      snd (server_loop (dict_set peers i (snd d)) rest))"
  by (cases d)
    (auto simp: server_loop.simps [of peers "_ # _"] recvfrom_def registers_iff Let_def
      got_def)

lemma server_loop_no_send: "filter is_send (fst (server_loop peers ds)) = []"
proof (induction ds arbitrary: peers)
  case Nil
  show ?case by (cases "length peers < 2") (simp_all add: server_loop.simps ok_def)
next
  case (Cons d ds)
  show ?case
  proof (cases "length peers < 2")
    case False
    then show ?thesis by (simp add: server_loop_full ok_def)
  next
    case True
    show ?thesis
    proof (cases "utf8 (fst d)")
      case False
      with True show ?thesis by (simp add: server_loop_not_utf8 raise_def)
    next
      case u: True
      then obtain i where "registers d i" using utf8_registers by blast
      with True Cons show ?thesis by (simp add: server_loop_registers)
    qed
  qed
qed

text \<open>
  While one id only keeps registering, the loop goes on with a registry of that one id,
  holding the address of its latest datagram.
\<close>

lemma server_loop_same_id:
  assumes "\<forall>d\<in>set pre. registers d a" and "pre \<noteq> []"
    and "peers = [] \<or> (\<exists>x. peers = [(a, x)])"
  shows "server_loop peers (pre @ post) =
           (map (got a) pre @ fst (server_loop [(a, snd (last pre))] post),
            snd (server_loop [(a, snd (last pre))] post))"
  using assms
proof (induction pre arbitrary: peers)
  case Nil
  then show ?case by simp
next
  case (Cons d pre)
  have len: "length peers < 2" using Cons.prems(3) by auto
  have reg: "registers d a" using Cons.prems(1) by simp
  have set: "dict_set peers a (snd d) = [(a, snd d)]" using Cons.prems(3) by auto
  have step: "server_loop peers ((d # pre) @ post) =
      (got a d # fst (server_loop [(a, snd d)] (pre @ post)),
       snd (server_loop [(a, snd d)] (pre @ post)))"
    using server_loop_registers [OF len reg, of "pre @ post"] set by simp
  show ?case
  proof (cases "pre = []")
    case True
    with step show ?thesis by simp
  next
    case False
    with Cons.IH [of "[(a, snd d)]"] Cons.prems(1)
    have "server_loop [(a, snd d)] (pre @ post) =
        (map (got a) pre @ fst (server_loop [(a, snd (last pre))] post),
         snd (server_loop [(a, snd (last pre))] post))"
      by simp
    with step False show ?thesis by simp
  qed
qed

lemma server_loop_second_id:
  assumes "registers d b" and "a \<noteq> b"
  shows "server_loop [(a, x)] (d # rest) = ([got b d], Inr ([(a, x), (b, snd d)], rest))"
  using server_loop_registers [of "[(a, x)]" d b rest] assms
  by (simp add: server_loop_full ok_def)

lemma introduce_pair:
  assumes "a \<noteq> b" and "introduction b y = Inr to_a" and "introduction a x = Inr to_b"
  shows "introduce names [(a, x), (b, y)] =
    ([Send to_a (py_addr x), Send to_b (py_addr y),
      Print (ascii ''introduced '' @ a @ ascii '' '' @ b), Close], Inr ())"
  using assms by (simp add: introduce_def dict_get_def ok_def emit_def and_then_cont)

lemma server_main_stopped:
  "snd (server_loop [] ds) = Inl s \<Longrightarrow> server_main names ds = (fst (server_loop [] ds), Inl s)"
  by (cases "server_loop [] ds") (simp add: server_main_def)

text \<open>
  The run in which the id \<open>a\<close> registers (once or several times) and then another id
  \<open>b\<close>: whatever is delivered after that is not looked at.
\<close>

lemma server_loop_two_ids:
  assumes "pre \<noteq> []" and "\<forall>e\<in>set pre. registers e a" and "registers d b" and "a \<noteq> b"
  shows "server_loop [] (pre @ d # rest) =
           (map (got a) pre @ [got b d], Inr ([(a, snd (last pre)), (b, snd d)], rest))"
  using server_loop_same_id [OF assms(2) assms(1), of "[]" "d # rest"]
    server_loop_second_id [OF assms(3) assms(4), of "snd (last pre)" rest]
  by simp

lemma server_main_two_ids:
  assumes "pre \<noteq> []" and "\<forall>e\<in>set pre. registers e a" and "registers d b" and "a \<noteq> b"
  shows "\<exists>to_a to_b.
           introduction b (snd d) = Inr to_a
           \<and> introduction a (snd (last pre)) = Inr to_b
           \<and> server_main names (pre @ d # rest) =
               (map (got a) pre @
                [got b d,
                 Send to_a (py_addr (snd (last pre))), Send to_b (py_addr (snd d)),
                 Print (ascii ''introduced '' @ a @ ascii '' '' @ b), Close],
                Inr ())"
proof -
  let ?x = "snd (last pre)"
  have "last pre \<in> set pre" using assms(1) by simp
  then have "encodable a" using assms(2) registers_encodable by blast
  then obtain to_b where tb: "introduction a ?x = Inr to_b" using introduction_ok by blast
  have "encodable b" using assms(3) registers_encodable by blast
  then obtain to_a where ta: "introduction b (snd d) = Inr to_a" using introduction_ok by blast
  have "server_main names (pre @ d # rest) =
      (map (got a) pre @ [got b d, Send to_a (py_addr ?x), Send to_b (py_addr (snd d)),
                 Print (ascii ''introduced '' @ a @ ascii '' '' @ b), Close], Inr ())"
    unfolding server_main_def server_loop_two_ids [OF assms]
    by (simp add: and_then_cont introduce_pair [OF assms(4) ta tb])
  then show ?thesis using ta tb by blast
qed

text \<open>Conversely, the loop is left only by such a run.\<close>

lemma server_loop_exit_one:
  "server_loop [(a, x)] ds = (tr, Inr (peers', rest)) \<Longrightarrow>
   \<exists>pre d b. ds = pre @ d # rest \<and> (\<forall>e\<in>set pre. registers e a) \<and> registers d b \<and> a \<noteq> b
     \<and> peers' = [(a, if pre = [] then x else snd (last pre)), (b, snd d)]"
proof (induction ds arbitrary: x tr)
  case Nil
  then show ?case by (simp add: server_loop_empty)
next
  case (Cons d ds)
  have len: "length [(a, x)] < 2" by simp
  show ?case
  proof (cases "utf8 (fst d)")
    case False
    with Cons.prems show ?thesis by (simp add: server_loop_not_utf8 [OF len] raise_def)
  next
    case True
    then obtain i where i: "registers d i" using utf8_registers by blast
    show ?thesis
    proof (cases "i = a")
      case False
      then have "server_loop [(a, x)] (d # ds) = ([got i d], Inr ([(a, x), (i, snd d)], ds))"
        using server_loop_second_id [OF i, of a x ds] by simp
      with Cons.prems have "rest = ds" and "peers' = [(a, x), (i, snd d)]" by simp_all
      with i False show ?thesis by (intro exI [of _ "[]"] exI [of _ d] exI [of _ i]) auto
    next
      case same: True
      from server_loop_registers [OF len i, of ds] same Cons.prems
      have "server_loop [(a, snd d)] ds = (tl tr, Inr (peers', rest))"
        by (cases "server_loop [(a, snd d)] ds") auto
      from Cons.IH [OF this] obtain pre e b where sh: "ds = pre @ e # rest"
        and all: "\<forall>e\<in>set pre. registers e a" and e: "registers e b" and ne: "a \<noteq> b"
        and ps: "peers' = [(a, if pre = [] then snd d else snd (last pre)), (b, snd e)]"
        by blast
      show ?thesis
        using sh all e ne ps i same
        by (intro exI [of _ "d # pre"] exI [of _ e] exI [of _ b]) auto
    qed
  qed
qed

lemma server_loop_exit_shape:
  assumes "server_loop [] ds = (tr, Inr (peers', rest))"
  shows "\<exists>pre d a b. ds = pre @ d # rest \<and> pre \<noteq> [] \<and> (\<forall>e\<in>set pre. registers e a)
           \<and> registers d b \<and> a \<noteq> b \<and> peers' = [(a, snd (last pre)), (b, snd d)]"
proof (cases ds)
  case Nil
  with assms show ?thesis by (simp add: server_loop_empty)
next
  case (Cons d0 ds')
  have len: "length ([] :: registry) < 2" by simp
  show ?thesis
  proof (cases "utf8 (fst d0)")
    case False
    with assms Cons show ?thesis by (simp add: server_loop_not_utf8 [OF len] raise_def)
  next
    case True
    then obtain a where a: "registers d0 a" using utf8_registers by blast
    from server_loop_registers [OF len a, of ds'] assms Cons
    have "server_loop [(a, snd d0)] ds' = (tl tr, Inr (peers', rest))"
      by (cases "server_loop [(a, snd d0)] ds'") auto
    from server_loop_exit_one [OF this] obtain pre e b where sh: "ds' = pre @ e # rest"
      and all: "\<forall>e\<in>set pre. registers e a" and e: "registers e b" and ne: "a \<noteq> b"
      and ps: "peers' = [(a, if pre = [] then snd d0 else snd (last pre)), (b, snd e)]"
      by blast
    show ?thesis
      using sh all e ne ps a Cons
      by (intro exI [of _ "d0 # pre"] exI [of _ e] exI [of _ a] exI [of _ b]) auto
  qed
qed

lemma dict_set_keys:
  "map fst (dict_set peers i x) =
     (if i \<in> fst ` set peers then map fst peers else map fst peers @ [i])"
proof (induction peers)
  case Nil
  show ?case by simp
next
  case (Cons p peers)
  obtain k v where p: "p = (k, v)" by (cases p)
  show ?case
  proof (cases "k = i")
    case True
    with p show ?thesis by simp
  next
    case False
    with p Cons show ?thesis by (cases "i \<in> fst ` set peers") auto
  qed
qed

lemma dict_set_map_of: "map_of (dict_set peers i x) = (map_of peers)(i \<mapsto> x)"
  by (induction peers) auto

lemma server_loop_leaves_iff: "server_loop peers ds = ok (peers, ds) \<longleftrightarrow> 2 \<le> length peers"
proof
  assume "2 \<le> length peers"
  then show "server_loop peers ds = ok (peers, ds)" by (rule server_loop_full)
next
  assume left: "server_loop peers ds = ok (peers, ds)"
  show "2 \<le> length peers"
  proof (rule ccontr)
    assume "\<not> 2 \<le> length peers"
    then have len: "length peers < 2" by simp
    show False
    proof (cases ds)
      case Nil
      with left len show False by (simp add: server_loop_empty ok_def)
    next
      case (Cons d rest)
      show False
      proof (cases "utf8 (fst d)")
        case False
        with left len Cons show False by (simp add: server_loop_not_utf8 ok_def raise_def)
      next
        case True
        then obtain i where "registers d i" using utf8_registers by blast
        with left len Cons show False by (simp add: server_loop_registers ok_def)
      qed
    qed
  qed
qed

lemma strip_spaces: "list_all isspace text \<Longrightarrow> strip text = []"
proof -
  assume "list_all isspace text"
  then have d: "dropWhile isspace text = []"
    unfolding list_all_iff dropWhile_eq_Nil_conv .
  show ?thesis unfolding strip_def d by simp
qed

text \<open>Facts with which the runs on concrete datagrams below are computed.\<close>

lemmas concrete = registers_iff decode_ascii ascii_bytes_def strip_def ascii_def isspace_def
  introduction_def py_addr_def host_str_def str_int_def str_nat.simps

subsection \<open>The peer: receiving, punching, listening\<close>

lemma utf8_text_of: "utf8 data \<Longrightarrow> decode (take 1024 data) = Inr (text_of data)"
  by (auto simp: utf8_def text_of_def split: sum.splits)

lemma not_utf8_decode: "\<not> utf8 data \<Longrightarrow> decode (take 1024 data) = Inl UnicodeDecodeError"
  by (auto simp: utf8_def split: sum.splits dest: decode_error)

lemma encode_literal_then:
  "ascii_bytes l \<Longrightarrow> encode s = Inr b \<Longrightarrow> encode (ascii l @ s) = Inr (l @ b)"
  by (rule encode_append [OF encode_ascii])

lemma listening_not_utf8:
  "\<not> utf8 data \<Longrightarrow> listening names peer_id (Datagram data src # rest) = raise UnicodeDecodeError"
  by (simp add: recvfrom_def not_utf8_decode)

lemma listening_utf8:
  assumes "utf8 data" and "encode peer_id = Inr p"
  shows "listening names peer_id (Datagram data src # rest) =
     (heard peer_id (data, src)
        # (if pinged (data, src) then [Send (''ack from '' @ p) (py_addr src)] else [])
        @ fst (listening names peer_id rest),
      snd (listening names peer_id rest))"
proof -
  have ack: "encode (ascii ''ack from '' @ peer_id) = Inr (''ack from '' @ p)"
    using assms(2) by (simp add: encode_literal_then ascii_bytes_def)
  show ?thesis
    by (simp add: recvfrom_def utf8_text_of [OF assms(1)] heard_def pinged_def ack)
qed

lemma listening_run:
  assumes "\<forall>d\<in>set ds. utf8 (fst d)" and "encode peer_id = Inr p"
  shows "listening names peer_id (dgrams ds @ evs) =
     (concat (map (\<lambda>d. heard peer_id d
                      # (if pinged d then [Send (''ack from '' @ p) (py_addr (snd d))] else []))
                  ds)
        @ fst (listening names peer_id evs),
      snd (listening names peer_id evs))"
  using assms(1)
proof (induction ds)
  case Nil
  then show ?case by (simp add: dgrams_def)
next
  case (Cons d ds)
  then have u: "utf8 (fst d)" and IH: "listening names peer_id (dgrams ds @ evs) =
     (concat (map (\<lambda>d. heard peer_id d
                      # (if pinged d then [Send (''ack from '' @ p) (py_addr (snd d))] else []))
                  ds)
        @ fst (listening names peer_id evs),
      snd (listening names peer_id evs))"
    by simp_all
  have "dgrams (d # ds) @ evs = Datagram (fst d) (snd d) # (dgrams ds @ evs)"
    by (simp add: dgrams_def)
  then show ?case
    using listening_utf8 [OF u assms(2), where src = "snd d" and rest = "dgrams ds @ evs" and names = names] IH by simp
qed

lemma rx_shape:
  "\<exists>ds tail. evs = dgrams ds @ tail \<and> (\<forall>d\<in>set ds. utf8 (fst d))
     \<and> (tail = [] \<or> (\<exists>rest. tail = Quiet # rest)
         \<or> (\<exists>data src rest. tail = Datagram data src # rest \<and> \<not> utf8 data))"
proof (induction evs)
  case Nil
  show ?case by (rule exI [of _ "[]"]) (simp add: dgrams_def)
next
  case (Cons e evs)
  show ?case
  proof (cases e)
    case Quiet
    then show ?thesis by (intro exI [of _ "[]"] exI [of _ "e # evs"]) (simp add: dgrams_def)
  next
    case (Datagram data src)
    show ?thesis
    proof (cases "utf8 data")
      case False
      with Datagram show ?thesis
        by (intro exI [of _ "[]"] exI [of _ "e # evs"]) (simp add: dgrams_def)
    next
      case True
      from Cons obtain ds tail where "evs = dgrams ds @ tail" "\<forall>d\<in>set ds. utf8 (fst d)"
        "tail = [] \<or> (\<exists>rest. tail = Quiet # rest)
         \<or> (\<exists>data src rest. tail = Datagram data src # rest \<and> \<not> utf8 data)"
        by blast
      with True Datagram show ?thesis
        by (intro exI [of _ "(data, src) # ds"] exI [of _ tail]) (simp add: dgrams_def)
    qed
  qed
qed


lemma awaiting_empty: "awaiting [] = ([], Inl Blocked)"
  by (simp add: awaiting_def)

lemma awaiting_quiet: "awaiting (Quiet # rest) = awaiting rest"
  by (simp add: awaiting_def)

lemma awaiting_datagram:
  "awaiting (Datagram data src # rest) =
     (case parse_introduction (take 1024 data) of
        Inl e \<Rightarrow> ([], Inl (Crashed e))
      | Inr intro \<Rightarrow> ([], Inr (intro, rest)))"
  by (cases "parse_introduction (take 1024 data)")
    (simp_all add: awaiting_def recvfrom_def, simp_all add: ok_def raise_def)

lemma py_int_error: "py_int s = Inl e \<Longrightarrow> e = ValueError"
  by (auto simp: py_int_def Let_def split: option.splits)

lemma parse_introduction_Inr:
  "parse_introduction bs = Inr (a, b, p) \<longleftrightarrow>
     (\<exists>text c. decode bs = Inr text \<and> split text = [a, b, c] \<and> py_int c = Inr p)"
  by (auto simp: parse_introduction_def split: sum.splits list.splits)

lemma parse_introduction_Inl:
  "parse_introduction bs = Inl e \<longleftrightarrow>
     (decode bs = Inl UnicodeDecodeError \<and> e = UnicodeDecodeError)
     \<or> (\<exists>text. decode bs = Inr text \<and> e = ValueError
          \<and> (length (split text) \<noteq> 3 \<or> py_int (split text ! 2) = Inl ValueError))"
proof (cases "decode bs")
  case (Inl x)
  then show ?thesis using decode_error [OF Inl] by (auto simp: parse_introduction_def)
next
  case (Inr t)
  show ?thesis
  proof (cases "length (split t) = 3")
    case False
    with Inr show ?thesis
      by (auto simp: parse_introduction_def split: list.splits)
  next
    case True
    then obtain a b c where "split t = [a, b, c]"
      by (auto simp: numeral_3_eq_3 length_Suc_conv)
    with Inr show ?thesis
      by (auto simp: parse_introduction_def split: sum.splits dest: py_int_error)
  qed
qed

lemma punching_ok:
  assumes "encode peer_id = Inr p" and "getsockaddrarg names dest = None"
  shows "punching names peer_id dest =
     ([Send (''ping from '' @ p) dest, Sleep_ms 500,
       Send (''ping from '' @ p) dest, Sleep_ms 500,
       Send (''ping from '' @ p) dest, Sleep_ms 500], Inr ())"
proof -
  have "encode (ascii ''ping from '' @ peer_id) = Inr (''ping from '' @ p)"
    using assms(1) by (simp add: encode_literal_then ascii_bytes_def)
  then have one: "ping names peer_id dest =
      ([Send (''ping from '' @ p) dest, Sleep_ms 500], Inr ())"
    by (simp add: ping_def sendto_ok [OF assms(2)]) (simp add: emit_def)
  have "times 3 body = and_then body (\<lambda>_. and_then body (\<lambda>_. and_then body (\<lambda>_. ok ())))"
    for body
    by (simp add: numeral_3_eq_3)
  then show ?thesis
    unfolding punching_def one by (simp add: and_then_cont ok_def)
qed

lemma punching_refused:
  assumes "encode peer_id = Inr p" and "getsockaddrarg names dest = Some e"
  shows "punching names peer_id dest = ([], Inl (Crashed e))"
proof -
  have "encode (ascii ''ping from '' @ peer_id) = Inr (''ping from '' @ p)"
    using assms(1) by (simp add: encode_literal_then ascii_bytes_def)
  then have one: "ping names peer_id dest = raise e"
    by (simp add: ping_def sendto_refused [OF assms(2)])
  show ?thesis unfolding punching_def by (simp add: numeral_3_eq_3 one) (simp add: raise_def)
qed

lemma peer_main_awaiting_stops:
  assumes "encode peer_id = Inr reg"
    and "getsockaddrarg names (server_ip, server_port) = None"
    and "awaiting evs = ([], Inl s)"
  shows "peer_main names peer_id server_ip server_port evs =
    ([Send reg (server_ip, server_port)], Inl s)"
  using assms by (simp add: peer_main_def sendto_ok)

lemma peer_main_run:
  assumes "encode peer_id = Inr reg"
    and "getsockaddrarg names (server_ip, server_port) = None"
    and "awaiting evs = ([], Inr ((other_id, other_ip, other_port), rest))"
    and "getsockaddrarg names (other_ip, other_port) = None"
  shows "peer_main names peer_id server_ip server_port evs =
     ([Send reg (server_ip, server_port),
       learned peer_id (other_id, other_ip, other_port),
       Send (''ping from '' @ reg) (other_ip, other_port), Sleep_ms 500,
       Send (''ping from '' @ reg) (other_ip, other_port), Sleep_ms 500,
       Send (''ping from '' @ reg) (other_ip, other_port), Sleep_ms 500,
       Settimeout 5]
      @ fst (listening names peer_id rest)
      @ (case snd (listening names peer_id rest) of Inl s \<Rightarrow> [] | Inr u \<Rightarrow> [Close]),
      snd (listening names peer_id rest))"
proof -
  obtain tr r where l: "listening names peer_id rest = (tr, r)"
    by (cases "listening names peer_id rest")
  show ?thesis
    using assms(1,2,3)
    by (cases r)
      (simp_all add: peer_main_def sendto_ok and_then_cont punching_ok [OF assms(1,4)] l
        learned_def emit_def)
qed

lemma peer_main_refused:
  assumes "encode peer_id = Inr reg"
    and "getsockaddrarg names (server_ip, server_port) = None"
    and "awaiting evs = ([], Inr ((other_id, other_ip, other_port), rest))"
    and "getsockaddrarg names (other_ip, other_port) = Some e"
  shows "peer_main names peer_id server_ip server_port evs =
     ([Send reg (server_ip, server_port), learned peer_id (other_id, other_ip, other_port)],
      Inl (Crashed e))"
  using assms(1,2,3)
  by (simp add: peer_main_def sendto_ok and_then_cont punching_refused [OF assms(1,4)]
      learned_def emit_def)

declare listening.simps(3) [simp del]

lemma listening_outcome:
  assumes "\<forall>d\<in>set ds. utf8 (fst d)" and "encode peer_id = Inr p"
  shows "snd (listening names peer_id (dgrams ds)) = Inl Blocked"
    and "snd (listening names peer_id (dgrams ds @ Quiet # rest)) = Inr ()"
    and "\<not> utf8 data \<Longrightarrow>
         snd (listening names peer_id (dgrams ds @ Datagram data src # rest)) =
           Inl (Crashed UnicodeDecodeError)"
proof -
  show "snd (listening names peer_id (dgrams ds)) = Inl Blocked"
    using listening_run [OF assms, where evs = "[]" and names = names] by simp
  show "snd (listening names peer_id (dgrams ds @ Quiet # rest)) = Inr ()"
    using listening_run [OF assms, where evs = "Quiet # rest" and names = names]
    by (simp add: ok_def)
  show "snd (listening names peer_id (dgrams ds @ Datagram data src # rest)) =
           Inl (Crashed UnicodeDecodeError)" if "\<not> utf8 data"
    using listening_run [OF assms, where evs = "Datagram data src # rest" and names = names]
      that
    by (simp add: listening_not_utf8 raise_def)
qed

lemma listening_cases:
  assumes "encode peer_id = Inr p"
  shows "(\<exists>ds. evs = dgrams ds \<and> (\<forall>d\<in>set ds. utf8 (fst d))
            \<and> snd (listening names peer_id evs) = Inl Blocked)
    \<or> (\<exists>ds rest. evs = dgrams ds @ Quiet # rest \<and> (\<forall>d\<in>set ds. utf8 (fst d))
            \<and> snd (listening names peer_id evs) = Inr ())
    \<or> (\<exists>ds data src rest. evs = dgrams ds @ Datagram data src # rest
            \<and> (\<forall>d\<in>set ds. utf8 (fst d)) \<and> \<not> utf8 data
            \<and> snd (listening names peer_id evs) = Inl (Crashed UnicodeDecodeError))"
proof -
  from rx_shape [of evs] obtain ds tail where evs: "evs = dgrams ds @ tail"
    and all: "\<forall>d\<in>set ds. utf8 (fst d)"
    and tail: "tail = [] \<or> (\<exists>rest. tail = Quiet # rest)
         \<or> (\<exists>data src rest. tail = Datagram data src # rest \<and> \<not> utf8 data)"
    by blast
  note out = listening_outcome [OF all assms, where names = names]
  from tail consider (blocked) "tail = []" | (quiet) rest where "tail = Quiet # rest"
    | (bad) data src rest where "tail = Datagram data src # rest" "\<not> utf8 data"
    by blast
  then show ?thesis
  proof cases
    case blocked
    with evs all out(1) show ?thesis by auto
  next
    case quiet
    with evs all out(2) [where rest = rest] show ?thesis by blast
  next
    case bad
    with evs all out(3) [OF bad(2), where src = src and rest = rest] show ?thesis by blast
  qed
qed

subsection \<open>When a role crashes\<close>

lemma server_loop_crash_iff:
  "snd (server_loop peers ds) = Inl (Crashed e) \<longleftrightarrow>
     e = UnicodeDecodeError
     \<and> (\<exists>pre d rest. ds = pre @ d # rest \<and> \<not> utf8 (fst d)
           \<and> snd (server_loop peers pre) = Inl Blocked)"
proof (induction ds arbitrary: peers)
  case Nil
  show ?case by (cases "length peers < 2") (simp_all add: server_loop.simps ok_def)
next
  case (Cons d0 ds)
  show ?case
  proof (cases "length peers < 2")
    case False
    then have "snd (server_loop peers xs) = Inr (peers, xs)" for xs
      by (simp add: server_loop_full ok_def)
    then show ?thesis by simp
  next
    case len: True
    show ?thesis
    proof (cases "utf8 (fst d0)")
      case False
      have "d0 # ds = [] @ d0 # ds \<and> \<not> utf8 (fst d0) \<and> snd (server_loop peers []) = Inl Blocked"
        using False len by (simp add: server_loop_empty)
      then have "\<exists>pre d rest. d0 # ds = pre @ d # rest \<and> \<not> utf8 (fst d)
           \<and> snd (server_loop peers pre) = Inl Blocked"
        by blast
      then show ?thesis using False len by (auto simp: server_loop_not_utf8 raise_def)
    next
      case True
      then obtain i where i: "registers d0 i" using utf8_registers by blast
      let ?P = "dict_set peers i (snd d0)"
      have step: "snd (server_loop peers (d0 # xs)) = snd (server_loop ?P xs)" for xs
        using server_loop_registers [OF len i, of xs] by simp
      have "(\<exists>pre d rest. d0 # ds = pre @ d # rest \<and> \<not> utf8 (fst d)
               \<and> snd (server_loop peers pre) = Inl Blocked)
            \<longleftrightarrow> (\<exists>pre d rest. ds = pre @ d # rest \<and> \<not> utf8 (fst d)
               \<and> snd (server_loop ?P pre) = Inl Blocked)"
      proof
        assume "\<exists>pre d rest. d0 # ds = pre @ d # rest \<and> \<not> utf8 (fst d)
               \<and> snd (server_loop peers pre) = Inl Blocked"
        then obtain pre d rest where sh: "d0 # ds = pre @ d # rest" and nu: "\<not> utf8 (fst d)"
          and bl: "snd (server_loop peers pre) = Inl Blocked"
          by blast
        from sh nu True obtain pre' where pre: "pre = d0 # pre'" by (cases pre) auto
        with sh have "ds = pre' @ d # rest" by simp
        moreover have "snd (server_loop ?P pre') = Inl Blocked" using bl pre step by simp
        ultimately show "\<exists>pre d rest. ds = pre @ d # rest \<and> \<not> utf8 (fst d)
               \<and> snd (server_loop ?P pre) = Inl Blocked"
          using nu by blast
      next
        assume "\<exists>pre d rest. ds = pre @ d # rest \<and> \<not> utf8 (fst d)
               \<and> snd (server_loop ?P pre) = Inl Blocked"
        then obtain pre d rest where sh: "ds = pre @ d # rest" and nu: "\<not> utf8 (fst d)"
          and bl: "snd (server_loop ?P pre) = Inl Blocked"
          by blast
        have "d0 # ds = (d0 # pre) @ d # rest" using sh by simp
        moreover have "snd (server_loop peers (d0 # pre)) = Inl Blocked" using bl step by simp
        ultimately show "\<exists>pre d rest. d0 # ds = pre @ d # rest \<and> \<not> utf8 (fst d)
               \<and> snd (server_loop peers pre) = Inl Blocked"
          using nu by blast
      qed
      then show ?thesis using step [of ds] Cons.IH [of ?P] by simp
    qed
  qed
qed

lemma server_main_outcome:
  "snd (server_main names ds) = (case snd (server_loop [] ds) of Inl s \<Rightarrow> Inl s | Inr r \<Rightarrow> Inr ())"
proof (cases "snd (server_loop [] ds)")
  case (Inl s)
  then show ?thesis by (simp add: server_main_stopped)
next
  case (Inr r)
  obtain peers rest where r: "r = (peers, rest)" by (cases r)
  obtain tr where loop: "server_loop [] ds = (tr, Inr (peers, rest))"
    using Inr r by (cases "server_loop [] ds") simp
  from server_loop_exit_shape [OF loop] obtain pre d a b
    where "ds = pre @ d # rest" "pre \<noteq> []" "\<forall>e\<in>set pre. registers e a" "registers d b"
      "a \<noteq> b"
    by blast
  with server_main_two_ids [where pre = pre and a = a and d = d and b = b and rest = rest
      and names = names]
  have "snd (server_main names ds) = Inr ()" by auto
  with Inr show ?thesis by simp
qed

lemma not_utf8_FF: "\<not> utf8 [CHR 0xFF]"
  by (simp add: utf8_def decode_def)

lemma utf8_ascii: "ascii_bytes s \<Longrightarrow> length s \<le> 1024 \<Longrightarrow> utf8 s"
  by (simp add: utf8_def decode_ascii)

lemma text_of_ascii: "ascii_bytes s \<Longrightarrow> length s \<le> 1024 \<Longrightarrow> text_of s = ascii s"
  by (simp add: text_of_def decode_ascii)

lemma server_main_same_id:
  assumes "pre \<noteq> []" and "\<forall>e\<in>set pre. registers e a"
  shows "server_main names pre = (map (got a) pre, Inl Blocked)"
proof -
  have "server_loop [] pre = (map (got a) pre, Inl Blocked)"
    using server_loop_same_id [OF assms(2) assms(1), of "[]" "[]"]
    by (simp add: server_loop_empty)
  then show ?thesis by (simp add: server_main_def)
qed

lemma numeric_10_0_0_1: "numeric_host (ascii ''10.0.0.1'')"
  using numeric_host_str [of "(10, 0, 0, 1)"]
  by (simp add: host_str_def str_nat.simps ascii_def)

lemma numeric_10_0_0_2: "numeric_host (ascii ''10.0.0.2'')"
  using numeric_host_str [of "(10, 0, 0, 2)"]
  by (simp add: host_str_def str_nat.simps ascii_def)

lemmas concrete_peer = decode_ascii ascii_bytes_def ascii_def isspace_def split_def
  parse_introduction_def py_int_def int_space_def unsigned_def todecimal_def nd_zeros_def
  awaiting_datagram awaiting_quiet

section \<open>The claims about the server\<close>

text \<open>
  C1. In every run in which two distinct ids register, the server sends exactly one
  introduction to each of the two peers. The run is: the id \<open>a\<close> registers, once or
  several times (\<open>pre\<close>), then the datagram \<open>d\<close> registers another id \<open>b\<close>; what arrives
  later (\<open>rest\<close>) is arbitrary. So \<open>a\<close> and \<open>b\<close> are the first two distinct ids in arrival
  order. The server's sends are then exactly two: to the source address of \<open>a\<close>'s
  (latest) datagram the introduction of \<open>b\<close> with the source address of \<open>b\<close>'s datagram,
  and to that address the introduction of \<open>a\<close> with \<open>a\<close>'s source address; the addresses
  are the ones \<^verbatim>\<open>recvfrom\<close> observed, the payload of a registration holds the id only.
  The run ends normally.
\<close>

theorem server_introduces_both:
  assumes "pre \<noteq> []" and "\<forall>e\<in>set pre. registers e a" and "registers d b" and "a \<noteq> b"
  shows "\<exists>to_a to_b.
           introduction b (snd d) = Inr to_a
           \<and> introduction a (snd (last pre)) = Inr to_b
           \<and> filter is_send (fst (server_main names (pre @ d # rest))) =
               [Send to_a (py_addr (snd (last pre))), Send to_b (py_addr (snd d))]
           \<and> snd (server_main names (pre @ d # rest)) = Inr ()"
proof -
  from server_main_two_ids [OF assms, where rest = rest and names = names] obtain to_a to_b
    where ta: "introduction b (snd d) = Inr to_a"
      and tb: "introduction a (snd (last pre)) = Inr to_b"
      and run: "server_main names (pre @ d # rest) =
               (map (got a) pre @
                [got b d,
                 Send to_a (py_addr (snd (last pre))), Send to_b (py_addr (snd d)),
                 Print (ascii ''introduced '' @ a @ ascii '' '' @ b), Close],
                Inr ())"
    by blast
  have "filter is_send (map (got a) pre) = []" by (induction pre) simp_all
  then have "filter is_send (fst (server_main names (pre @ d # rest))) =
      [Send to_a (py_addr (snd (last pre))), Send to_b (py_addr (snd d))]"
    unfolding run by simp
  with ta tb run show ?thesis by simp
qed

theorem server_introduces_both_witness:
  "filter is_send (fst (server_main no_names
      ([(''peer1'', ((10, 0, 0, 1), 40001)), (''peer1'', ((10, 0, 0, 1), 40003))]
       @ ('' peer2 '', ((10, 0, 0, 2), 40002)) # [(''peer3'', ((10, 0, 0, 3), 40004))]))) =
     [Send ''peer2 10.0.0.2 40002'' (ascii ''10.0.0.1'', 40003),
      Send ''peer1 10.0.0.1 40003'' (ascii ''10.0.0.2'', 40002)]"
proof -
  let ?pre = "[(''peer1'', ((10, 0, 0, 1), 40001)), (''peer1'', ((10, 0, 0, 1), 40003))]
    :: (bytes \<times> sockaddr) list"
  let ?d = "('' peer2 '', ((10, 0, 0, 2), 40002)) :: bytes \<times> sockaddr"
  note ev = registers_iff decode_ascii ascii_bytes_def strip_def ascii_def isspace_def
    introduction_def py_addr_def host_str_def str_int_def str_nat.simps
  have h1: "?pre \<noteq> []" by simp
  have h2: "\<forall>e\<in>set ?pre. registers e (ascii ''peer1'')" by (simp add: ev)
  have h3: "registers ?d (ascii ''peer2'')" by (simp add: ev)
  have h4: "ascii ''peer1'' \<noteq> ascii ''peer2''" by (simp add: ascii_def)
  have i1: "introduction (ascii ''peer2'') (snd ?d) = Inr ''peer2 10.0.0.2 40002''"
    using encode_ascii [of "''peer2 10.0.0.2 40002''"] by (simp add: ev)
  have i2: "introduction (ascii ''peer1'') (snd (last ?pre)) = Inr ''peer1 10.0.0.1 40003''"
    using encode_ascii [of "''peer1 10.0.0.1 40003''"] by (simp add: ev)
  have a1: "py_addr (snd (last ?pre)) = (ascii ''10.0.0.1'', 40003)" by (simp add: ev)
  have a2: "py_addr (snd ?d) = (ascii ''10.0.0.2'', 40002)" by (simp add: ev)
  from server_introduces_both
    [OF h1 h2 h3 h4, where rest = "[(''peer3'', ((10, 0, 0, 3), 40004))]" and names = no_names]
  show ?thesis unfolding i1 i2 a1 a2 by auto
qed

text \<open>
  C4. The registry never holds more than two ids: it starts empty, an iteration runs only
  while it holds fewer than two, and storing into a registry of fewer than two distinct
  ids leaves at most two distinct ids. The loop is left exactly when the registry holds
  two ids, and a loop started on the empty registry is left with two distinct ids.
  Storing under an id already present keeps the ids and their number and replaces the
  address (the stored map is the old one updated at that id). So while datagrams of one
  id only arrive (\<open>pre\<close>), the loop goes on from the registry of that single id with the
  address of the latest datagram, and the server stays blocked in \<^verbatim>\<open>recvfrom\<close> if
  nothing else arrives.
\<close>

theorem server_registry_two_ids:
  "(distinct (map fst peers) \<and> length peers < 2 \<longrightarrow>
      distinct (map fst (dict_set peers i x)) \<and> length (dict_set peers i x) \<le> 2)
   \<and> (i \<in> fst ` set peers \<longrightarrow>
        map fst (dict_set peers i x) = map fst peers
        \<and> length (dict_set peers i x) = length peers)
   \<and> map_of (dict_set peers i x) = (map_of peers)(i \<mapsto> x)
   \<and> (server_loop peers ds = ok (peers, ds) \<longleftrightarrow> 2 \<le> length peers)
   \<and> (server_loop [] ds = (tr, Inr (peers', rest)) \<longrightarrow>
        length peers' = 2 \<and> distinct (map fst peers'))
   \<and> (pre \<noteq> [] \<and> (\<forall>e\<in>set pre. registers e a) \<longrightarrow>
        server_loop [] (pre @ post) =
          (map (got a) pre @ fst (server_loop [(a, snd (last pre))] post),
           snd (server_loop [(a, snd (last pre))] post))
        \<and> server_main names pre = (map (got a) pre, Inl Blocked))"
proof (intro conjI impI)
  assume a: "distinct (map fst peers) \<and> length peers < 2"
  then show "distinct (map fst (dict_set peers i x))" by (auto simp: dict_set_keys)
  have "length (map fst (dict_set peers i x)) \<le> Suc (length peers)"
    unfolding dict_set_keys by simp
  with a show "length (dict_set peers i x) \<le> 2" by simp
next
  assume "i \<in> fst ` set peers"
  then show "map fst (dict_set peers i x) = map fst peers" by (simp add: dict_set_keys)
  then show "length (dict_set peers i x) = length peers" by (metis length_map)
next
  show "map_of (dict_set peers i x) = (map_of peers)(i \<mapsto> x)" by (rule dict_set_map_of)
next
  show "server_loop peers ds = ok (peers, ds) \<longleftrightarrow> 2 \<le> length peers"
    by (rule server_loop_leaves_iff)
next
  assume "server_loop [] ds = (tr, Inr (peers', rest))"
  from server_loop_exit_shape [OF this]
  show "length peers' = 2" and "distinct (map fst peers')" by auto
next
  assume h: "pre \<noteq> [] \<and> (\<forall>e\<in>set pre. registers e a)"
  then have all: "\<forall>e\<in>set pre. registers e a" and ne: "pre \<noteq> []" by simp_all
  show "server_loop [] (pre @ post) =
          (map (got a) pre @ fst (server_loop [(a, snd (last pre))] post),
           snd (server_loop [(a, snd (last pre))] post))"
    using server_loop_same_id [OF all ne, of "[]" post] by simp
  have "server_loop [] pre = (map (got a) pre, Inl Blocked)"
    using server_loop_same_id [OF all ne, of "[]" "[]"] by (simp add: server_loop_empty)
  then show "server_main names pre = (map (got a) pre, Inl Blocked)"
    by (simp add: server_main_def)
qed

theorem server_registry_two_ids_witness:
  "dict_set [(ascii ''peer1'', ((10, 0, 0, 1), 40001))] (ascii ''peer1'') ((10, 0, 0, 9), 40009)
     = [(ascii ''peer1'', ((10, 0, 0, 9), 40009))]
   \<and> server_main no_names [(''peer1'', ((10, 0, 0, 1), 40001)), (''peer1'', ((10, 0, 0, 9), 40009))]
     = ([got (ascii ''peer1'') (''peer1'', ((10, 0, 0, 1), 40001)),
         got (ascii ''peer1'') (''peer1'', ((10, 0, 0, 9), 40009))], Inl Blocked)
   \<and> (\<exists>tr peers' rest.
         server_loop [] [(''peer1'', ((10, 0, 0, 1), 40001)), (''peer1'', ((10, 0, 0, 9), 40009)),
                         (''peer2'', ((10, 0, 0, 2), 40002))] = (tr, Inr (peers', rest))
         \<and> length peers' = 2 \<and> distinct (map fst peers'))"
proof -
  let ?A1 = "((10, 0, 0, 1), 40001) :: sockaddr"
  let ?A9 = "((10, 0, 0, 9), 40009) :: sockaddr"
  let ?p1 = "(''peer1'', ?A1) :: bytes \<times> sockaddr"
  let ?p9 = "(''peer1'', ?A9) :: bytes \<times> sockaddr"
  let ?p2 = "(''peer2'', ((10, 0, 0, 2), 40002)) :: bytes \<times> sockaddr"
  let ?a = "ascii ''peer1''"
  have pre: "[?p1, ?p9] \<noteq> [] \<and> (\<forall>e\<in>set [?p1, ?p9]. registers e ?a)"
    by (simp add: concrete)
  have d: "registers ?p2 (ascii ''peer2'')" by (simp add: concrete)
  have ne: "?a \<noteq> ascii ''peer2''" by (simp add: ascii_def)
  have loop: "server_loop [] [?p1, ?p9, ?p2] =
      (map (got ?a) [?p1, ?p9] @ [got (ascii ''peer2'') ?p2],
       Inr ([(?a, snd (last [?p1, ?p9])), (ascii ''peer2'', snd ?p2)], []))"
    using server_loop_two_ids [of "[?p1, ?p9]" ?a ?p2 "ascii ''peer2''" "[]"] pre d ne
    by simp
  have mem: "?a \<in> fst ` set [(?a, ?A1)]" by simp
  note inst = server_registry_two_ids
    [where peers = "[(?a, ?A1)]" and i = ?a and x = ?A9 and ds = "[?p1, ?p9, ?p2]"
       and rest = "[]" and pre = "[?p1, ?p9]" and a = ?a and post = "[]"
       and names = no_names]
  have "dict_set [(?a, ?A1)] ?a ?A9 = [(?a, ?A9)]" by simp
  moreover have "server_main no_names [?p1, ?p9] = (map (got ?a) [?p1, ?p9], Inl Blocked)"
    using inst pre by blast
  moreover have "length ([(?a, snd (last [?p1, ?p9])), (ascii ''peer2'', snd ?p2)]) = 2
      \<and> distinct (map fst [(?a, snd (last [?p1, ?p9])), (ascii ''peer2'', snd ?p2)])"
    using inst loop by blast
  ultimately show ?thesis using loop by simp
qed

text \<open>
  C5. A run of the server that ends normally has performed one introduction round: its
  trace is lines printed, then the two sends, the line \<^verbatim>\<open>introduced\<close> and the close of
  the socket; and it has received nothing after the second distinct registration,
  since whatever is delivered later (\<open>later\<close>), a third registration for instance,
  leaves the run as it is.
\<close>

theorem server_single_round:
  assumes "snd (server_main names ds) = Inr ()"
  shows "server_main names (ds @ later) = server_main names ds
         \<and> (\<exists>tr to_a x to_b y line.
               filter is_send tr = []
               \<and> fst (server_main names ds) = tr @ [Send to_a x, Send to_b y, Print line, Close])"
proof -
  obtain tr r where loop: "server_loop [] ds = (tr, r)" by (cases "server_loop [] ds")
  have "\<exists>peers rest. r = Inr (peers, rest)"
  proof (cases r)
    case (Inl s)
    with loop assms server_main_stopped [where ds = ds and s = s and names = names]
    show ?thesis by simp
  next
    case (Inr x)
    then show ?thesis by (cases x) simp
  qed
  then obtain peers rest where r: "r = Inr (peers, rest)" by blast
  from server_loop_exit_shape [OF loop [unfolded r]] obtain pre d a b
    where ds: "ds = pre @ d # rest" and pre: "pre \<noteq> []"
      and all: "\<forall>e\<in>set pre. registers e a" and d: "registers d b" and ne: "a \<noteq> b"
    by blast
  from server_main_two_ids [OF pre all d ne, where rest = rest and names = names]
  obtain to_a to_b
    where ta: "introduction b (snd d) = Inr to_a"
      and tb: "introduction a (snd (last pre)) = Inr to_b"
      and run: "server_main names ds =
            (map (got a) pre @ [got b d,
                   Send to_a (py_addr (snd (last pre))), Send to_b (py_addr (snd d)),
                   Print (ascii ''introduced '' @ a @ ascii '' '' @ b), Close], Inr ())"
    using ds by auto
  from server_main_two_ids [OF pre all d ne, where rest = "rest @ later" and names = names]
    ta tb
  have "server_main names (ds @ later) =
            (map (got a) pre @ [got b d,
                   Send to_a (py_addr (snd (last pre))), Send to_b (py_addr (snd d)),
                   Print (ascii ''introduced '' @ a @ ascii '' '' @ b), Close], Inr ())"
    using ds by auto
  then have same: "server_main names (ds @ later) = server_main names ds" using run by simp
  have "filter is_send (map (got a) pre @ [got b d]) = []"
    by (induction pre) simp_all
  moreover have "fst (server_main names ds) =
      (map (got a) pre @ [got b d])
      @ [Send to_a (py_addr (snd (last pre))), Send to_b (py_addr (snd d)),
         Print (ascii ''introduced '' @ a @ ascii '' '' @ b), Close]"
    using run by simp
  ultimately show ?thesis using same by blast
qed

theorem server_single_round_witness:
  "snd (server_main no_names [(''peer1'', ((10, 0, 0, 1), 40001)), (''peer2'', ((10, 0, 0, 2), 40002))])
     = Inr ()
   \<and> server_main no_names ([(''peer1'', ((10, 0, 0, 1), 40001)), (''peer2'', ((10, 0, 0, 2), 40002))]
                   @ [(''peer3'', ((10, 0, 0, 3), 40003))])
     = server_main no_names [(''peer1'', ((10, 0, 0, 1), 40001)), (''peer2'', ((10, 0, 0, 2), 40002))]"
proof -
  let ?p1 = "(''peer1'', ((10, 0, 0, 1), 40001)) :: bytes \<times> sockaddr"
  let ?p2 = "(''peer2'', ((10, 0, 0, 2), 40002)) :: bytes \<times> sockaddr"
  have "snd (server_main no_names ([?p1] @ ?p2 # [])) = Inr ()"
    using server_main_two_ids
      [where pre = "[?p1]" and a = "ascii ''peer1''" and d = ?p2 and b = "ascii ''peer2''"
         and rest = "[]" and names = no_names]
    by (auto simp: concrete)
  then have run: "snd (server_main no_names [?p1, ?p2]) = Inr ()" by simp
  from server_single_round [OF run, where later = "[(''peer3'', ((10, 0, 0, 3), 40003))]"] run
  show ?thesis by simp
qed

text \<open>
  C9. The server takes every datagram that decodes as UTF-8 for a registration, of the
  id that stripping the text leaves, whatever that is. A text of white space only
  registers the empty id, which counts as an id like any other: when another id \<open>b\<close>
  registers after it the loop is left, and \<open>b\<close> is sent an introduction whose id is
  empty, while the address that registered the empty id is sent the introduction of
  \<open>b\<close>.
\<close>

theorem server_accepts_any_text:
  assumes "decode (take 1024 data) = Inr text"
  shows "registers (data, addr) (strip text)
    \<and> (length peers < 2 \<longrightarrow>
         server_loop peers ((data, addr) # rest) =
           (got (strip text) (data, addr)
              # fst (server_loop (dict_set peers (strip text) addr) rest),
            snd (server_loop (dict_set peers (strip text) addr) rest)))
    \<and> (list_all isspace text \<longrightarrow>
         strip text = []
         \<and> (registers d b \<and> b \<noteq> [] \<longrightarrow>
              (\<exists>to_e to_b.
                 introduction b (snd d) = Inr to_e
                 \<and> introduction [] addr = Inr to_b
                 \<and> server_main names ((data, addr) # d # rest) =
                     ([got [] (data, addr), got b d,
                       Send to_e (py_addr addr), Send to_b (py_addr (snd d)),
                       Print (ascii ''introduced '' @ [] @ ascii '' '' @ b), Close],
                      Inr ()))))"
proof (intro conjI impI)
  show reg: "registers (data, addr) (strip text)" using assms by (simp add: registers_iff)
  show "server_loop peers ((data, addr) # rest) =
           (got (strip text) (data, addr)
              # fst (server_loop (dict_set peers (strip text) addr) rest),
            snd (server_loop (dict_set peers (strip text) addr) rest))"
    if "length peers < 2"
    using server_loop_registers [OF that reg, of rest] by simp
  show "strip text = []" if "list_all isspace text" using that by (rule strip_spaces)
  show "\<exists>to_e to_b.
                 introduction b (snd d) = Inr to_e
                 \<and> introduction [] addr = Inr to_b
                 \<and> server_main names ((data, addr) # d # rest) =
                     ([got [] (data, addr), got b d,
                       Send to_e (py_addr addr), Send to_b (py_addr (snd d)),
                       Print (ascii ''introduced '' @ [] @ ascii '' '' @ b), Close],
                      Inr ())"
    if sp: "list_all isspace text" and d: "registers d b \<and> b \<noteq> []"
  proof -
    have e: "\<forall>e\<in>set [(data, addr)]. registers e []" using reg strip_spaces [OF sp] by simp
    from server_main_two_ids
      [where pre = "[(data, addr)]" and a = "[]" and d = d and b = b and rest = rest
         and names = names]
      e d
    show ?thesis by auto
  qed
qed

theorem server_accepts_any_text_witness:
  "registers ([CHR 0x20, CHR 0x0A], ((10, 0, 0, 1), 40001)) []
   \<and> server_main no_names [([CHR 0x20, CHR 0x0A], ((10, 0, 0, 1), 40001)),
                  (''peer2'', ((10, 0, 0, 2), 40002))] =
       ([got [] ([CHR 0x20, CHR 0x0A], ((10, 0, 0, 1), 40001)),
         got (ascii ''peer2'') (''peer2'', ((10, 0, 0, 2), 40002)),
         Send ''peer2 10.0.0.2 40002'' (ascii ''10.0.0.1'', 40001),
         Send '' 10.0.0.1 40001'' (ascii ''10.0.0.2'', 40002),
         Print (ascii ''introduced  peer2''), Close],
        Inr ())"
proof -
  let ?w = "[CHR 0x20, CHR 0x0A]"
  let ?A1 = "((10, 0, 0, 1), 40001) :: sockaddr"
  let ?p2 = "(''peer2'', ((10, 0, 0, 2), 40002)) :: bytes \<times> sockaddr"
  have dec: "decode (take 1024 ?w) = Inr [0x20, 0x0A]"
    using decode_ascii [of ?w] by (simp add: ascii_bytes_def ascii_def)
  have sp: "list_all isspace [0x20, 0x0A]" by (simp add: isspace_def)
  have d: "registers ?p2 (ascii ''peer2'') \<and> ascii ''peer2'' \<noteq> []" by (simp add: concrete)
  have i1: "introduction (ascii ''peer2'') (snd ?p2) = Inr ''peer2 10.0.0.2 40002''"
    using encode_ascii [of "''peer2 10.0.0.2 40002''"] by (simp add: concrete)
  have i2: "introduction [] ?A1 = Inr '' 10.0.0.1 40001''"
    using encode_ascii [of "'' 10.0.0.1 40001''"] by (simp add: concrete)
  have a1: "py_addr ?A1 = (ascii ''10.0.0.1'', 40001)" by (simp add: concrete)
  have a2: "py_addr (snd ?p2) = (ascii ''10.0.0.2'', 40002)" by (simp add: concrete)
  have l: "ascii ''introduced '' @ [] @ ascii '' '' @ ascii ''peer2'' = ascii ''introduced  peer2''"
    by (simp add: ascii_def)
  from server_accepts_any_text
    [OF dec, where addr = ?A1 and peers = "[]" and rest = "[]" and d = ?p2
       and b = "ascii ''peer2''" and names = no_names]
    sp d
  show ?thesis unfolding i1 i2 a1 a2 l by (auto simp: strip_spaces)
qed

text \<open>
  C10. The receive loop of the server sends nothing, whatever it receives. If the loop
  does not finish (the server is blocked in \<^verbatim>\<open>recvfrom\<close>, or has crashed) the whole run
  is the trace of the loop. If it finishes, the registry holds two distinct ids, and the
  run is the trace of the loop followed by the two introductions, one printed line and
  the close of the socket: these two are the only datagrams the server ever sends.
\<close>

theorem server_sends_only_introductions:
  "filter is_send (fst (server_loop [] ds)) = []
   \<and> (case snd (server_loop [] ds) of
        Inl s \<Rightarrow> server_main names ds = (fst (server_loop [] ds), Inl s)
      | Inr (peers, rest) \<Rightarrow>
          (\<exists>a x b y to_a to_b.
             peers = [(a, x), (b, y)] \<and> a \<noteq> b
             \<and> introduction b y = Inr to_a \<and> introduction a x = Inr to_b
             \<and> server_main names ds =
                 (fst (server_loop [] ds)
                  @ [Send to_a (py_addr x), Send to_b (py_addr y),
                     Print (ascii ''introduced '' @ a @ ascii '' '' @ b), Close],
                  Inr ())))"
proof (cases "snd (server_loop [] ds)")
  case (Inl s)
  then show ?thesis by (simp add: server_loop_no_send server_main_stopped)
next
  case (Inr r)
  obtain peers rest where r: "r = (peers, rest)" by (cases r)
  obtain tr where loop: "server_loop [] ds = (tr, Inr (peers, rest))"
    using Inr r by (cases "server_loop [] ds") simp
  from server_loop_exit_shape [OF loop] obtain pre d a b
    where ds: "ds = pre @ d # rest" and pre: "pre \<noteq> []"
      and all: "\<forall>e\<in>set pre. registers e a" and d: "registers d b" and ne: "a \<noteq> b"
      and peers: "peers = [(a, snd (last pre)), (b, snd d)]"
    by blast
  have tr: "tr = map (got a) pre @ [got b d]"
    using loop server_loop_two_ids [OF pre all d ne, of rest] ds by simp
  from server_main_two_ids [OF pre all d ne, where rest = rest and names = names]
  obtain to_a to_b
    where "introduction b (snd d) = Inr to_a" and "introduction a (snd (last pre)) = Inr to_b"
      and "server_main names ds =
            (tr @ [Send to_a (py_addr (snd (last pre))), Send to_b (py_addr (snd d)),
                   Print (ascii ''introduced '' @ a @ ascii '' '' @ b), Close], Inr ())"
    using ds tr by auto
  with peers ne have "\<exists>a x b y to_a to_b.
             peers = [(a, x), (b, y)] \<and> a \<noteq> b
             \<and> introduction b y = Inr to_a \<and> introduction a x = Inr to_b
             \<and> server_main names ds =
                 (tr @ [Send to_a (py_addr x), Send to_b (py_addr y),
                     Print (ascii ''introduced '' @ a @ ascii '' '' @ b), Close],
                  Inr ())"
    by blast
  then show ?thesis
    using loop server_loop_no_send [of "[]" ds] by simp
qed

section \<open>The claims about the peer\<close>

text \<open>
  C3, as the specification states it, does not hold: in \<open>AwaitingIntroduction\<close> a datagram
  that is no introduction is not ignored. The peer receives \<^verbatim>\<open>hello\<close>, then a well-formed
  introduction: unpacking the one field of \<^verbatim>\<open>hello\<close> into three names raises
  \<^verbatim>\<open>ValueError\<close>, which nothing catches, and the introduction that follows is never
  received. Had the first datagram been ignored, the peer would have learned \<^verbatim>\<open>peer2\<close>,
  as it does when the introduction comes first.
\<close>

theorem awaiting_keeps_waiting_counterexample:
  "awaiting [Datagram ''hello'' ((10, 0, 0, 9), 5000),
             Datagram ''peer2 10.0.0.2 40002'' ((10, 0, 0, 1), 9999)] =
     ([], Inl (Crashed ValueError))
   \<and> awaiting [Datagram ''peer2 10.0.0.2 40002'' ((10, 0, 0, 1), 9999)] =
     ([], Inr ((ascii ''peer2'', ascii ''10.0.0.2'', 40002), []))"
  by (simp add: concrete_peer)

text \<open>
  C3, amended. In \<open>AwaitingIntroduction\<close> the peer waits, without timeout, for one
  datagram and parses the first 1024 bytes of it. If they decode as UTF-8, split on white
  space into exactly three fields, and \<^verbatim>\<open>int\<close> accepts the third, the peer moves on to
  \<open>Punching\<close> with these three values and the datagrams not yet received. Otherwise the
  peer does not keep waiting: the run ends with \<^verbatim>\<open>UnicodeDecodeError\<close> (not UTF-8) or
  \<^verbatim>\<open>ValueError\<close> (not three fields, or a third field that is no integer), having sent
  its registration (\<^verbatim>\<open>sendto\<close> accepting the server's address) and nothing else. Only a
  successful parse moves the peer to \<open>Punching\<close>.
\<close>

theorem awaiting_one_datagram:
  "awaiting [] = ([], Inl Blocked)
   \<and> awaiting (Quiet # rest) = awaiting rest
   \<and> awaiting (Datagram data src # rest) =
       (case parse_introduction (take 1024 data) of
          Inl e \<Rightarrow> ([], Inl (Crashed e))
        | Inr intro \<Rightarrow> ([], Inr (intro, rest)))
   \<and> (parse_introduction bs = Inr (a, b, p) \<longleftrightarrow>
        (\<exists>text c. decode bs = Inr text \<and> split text = [a, b, c] \<and> py_int c = Inr p))
   \<and> (parse_introduction bs = Inl e \<longleftrightarrow>
        (decode bs = Inl UnicodeDecodeError \<and> e = UnicodeDecodeError)
        \<or> (\<exists>text. decode bs = Inr text \<and> e = ValueError
             \<and> (length (split text) \<noteq> 3 \<or> py_int (split text ! 2) = Inl ValueError)))
   \<and> (encode peer_id = Inr reg \<and> getsockaddrarg names (server_ip, server_port) = None
        \<and> parse_introduction (take 1024 data) = Inl e \<longrightarrow>
        peer_main names peer_id server_ip server_port (Datagram data src # rest) =
          ([Send reg (server_ip, server_port)], Inl (Crashed e)))"
proof (intro conjI impI)
  show "awaiting [] = ([], Inl Blocked)" by (rule awaiting_empty)
  show "awaiting (Quiet # rest) = awaiting rest" by (rule awaiting_quiet)
  show "awaiting (Datagram data src # rest) =
       (case parse_introduction (take 1024 data) of
          Inl e \<Rightarrow> ([], Inl (Crashed e))
        | Inr intro \<Rightarrow> ([], Inr (intro, rest)))"
    by (rule awaiting_datagram)
  show "parse_introduction bs = Inr (a, b, p) \<longleftrightarrow>
        (\<exists>text c. decode bs = Inr text \<and> split text = [a, b, c] \<and> py_int c = Inr p)"
    by (rule parse_introduction_Inr)
  show "parse_introduction bs = Inl e \<longleftrightarrow>
        (decode bs = Inl UnicodeDecodeError \<and> e = UnicodeDecodeError)
        \<or> (\<exists>text. decode bs = Inr text \<and> e = ValueError
             \<and> (length (split text) \<noteq> 3 \<or> py_int (split text ! 2) = Inl ValueError))"
    by (rule parse_introduction_Inl)
  assume h: "encode peer_id = Inr reg \<and> getsockaddrarg names (server_ip, server_port) = None
        \<and> parse_introduction (take 1024 data) = Inl e"
  then have "awaiting (Datagram data src # rest) = ([], Inl (Crashed e))"
    by (simp add: awaiting_datagram)
  with h show "peer_main names peer_id server_ip server_port (Datagram data src # rest) =
          ([Send reg (server_ip, server_port)], Inl (Crashed e))"
    by (simp add: peer_main_awaiting_stops)
qed

theorem awaiting_one_datagram_witness:
  "peer_main no_names (ascii ''peer1'') (ascii ''10.0.0.1'') 9999
     [Datagram ''peer2 10.0.0.2'' ((10, 0, 0, 1), 9999),
      Datagram ''peer2 10.0.0.2 40002'' ((10, 0, 0, 1), 9999)] =
     ([Send ''peer1'' (ascii ''10.0.0.1'', 9999)], Inl (Crashed ValueError))"
proof -
  have e: "encode (ascii ''peer1'') = Inr ''peer1''"
    by (simp add: encode_ascii ascii_bytes_def)
  have p: "parse_introduction (take 1024 ''peer2 10.0.0.2'') = Inl ValueError"
    by (simp add: concrete_peer)
  have s: "getsockaddrarg no_names (ascii ''10.0.0.1'', 9999) = None"
    by (simp add: getsockaddrarg_numeric [OF numeric_10_0_0_1])
  from awaiting_one_datagram
    [where data = "''peer2 10.0.0.2''" and e = ValueError and peer_id = "ascii ''peer1''"
       and reg = "''peer1''" and server_ip = "ascii ''10.0.0.1''" and server_port = 9999
       and names = no_names]
    e p s
  show ?thesis by simp
qed

text \<open>
  C6, as the specification states it, does not hold: the peer does not compare the
  leading token of the message with \<^verbatim>\<open>ping\<close>, it tests whether the text starts with the
  four characters \<^verbatim>\<open>ping\<close>. So \<^verbatim>\<open>pingpong\<close>, whose only token is not \<^verbatim>\<open>ping\<close>, is
  answered with an ack, and a ping message after a leading blank, whose leading token
  is \<^verbatim>\<open>ping\<close>, is not.
\<close>

theorem listening_ack_counterexample:
  "split (ascii ''pingpong'') = [ascii ''pingpong'']
   \<and> ascii ''pingpong'' \<noteq> ascii ''ping''
   \<and> filter is_send (fst (listening no_names (ascii ''peer1'')
        [Datagram ''pingpong'' ((10, 0, 0, 2), 40002), Quiet])) =
       [Send ''ack from peer1'' (ascii ''10.0.0.2'', 40002)]
   \<and> split (ascii '' ping from peer2'') = [ascii ''ping'', ascii ''from'', ascii ''peer2'']
   \<and> filter is_send (fst (listening no_names (ascii ''peer1'')
        [Datagram '' ping from peer2'' ((10, 0, 0, 2), 40002), Quiet])) = []"
proof -
  have e: "encode (ascii ''peer1'') = Inr ''peer1''"
    by (simp add: encode_ascii ascii_bytes_def)
  have u1: "utf8 ''pingpong''" and u2: "utf8 '' ping from peer2''"
    by (simp_all add: utf8_ascii ascii_bytes_def)
  let ?A = "((10, 0, 0, 2), 40002) :: sockaddr"
  have a: "py_addr ?A = (ascii ''10.0.0.2'', 40002)"
    by (simp add: py_addr_def host_str_def str_nat.simps ascii_def)
  have p1: "pinged (''pingpong'', ?A)"
    by (simp add: pinged_def startswith_def text_of_ascii ascii_bytes_def ascii_def)
  have p2: "\<not> pinged ('' ping from peer2'', ?A)"
    by (simp add: pinged_def startswith_def text_of_ascii ascii_bytes_def ascii_def)
  have "filter is_send (fst (listening no_names (ascii ''peer1'')
        [Datagram ''pingpong'' ((10, 0, 0, 2), 40002), Quiet])) =
       [Send ''ack from peer1'' (ascii ''10.0.0.2'', 40002)]"
    unfolding listening_utf8 [OF u1 e] by (simp add: p1 a heard_def ok_def)
  moreover have "filter is_send (fst (listening no_names (ascii ''peer1'')
        [Datagram '' ping from peer2'' ((10, 0, 0, 2), 40002), Quiet])) = []"
    unfolding listening_utf8 [OF u2 e] by (simp add: p2 heard_def ok_def)
  moreover have "split (ascii ''pingpong'') = [ascii ''pingpong'']"
    by (simp add: split_def ascii_def isspace_def)
  moreover have "split (ascii '' ping from peer2'') =
      [ascii ''ping'', ascii ''from'', ascii ''peer2'']"
    by (simp add: split_def ascii_def isspace_def)
  moreover have "ascii ''pingpong'' \<noteq> ascii ''ping''" by (simp add: ascii_def)
  ultimately show ?thesis by blast
qed

text \<open>
  C6, amended. In \<open>Listening\<close>, for datagrams that decode as UTF-8 (the peer's own id
  being encodable, as it is once the registration was sent): the peer prints one record
  for each datagram, in order, and right after the record it sends the ack
  \<^verbatim>\<open>ack from <peer_id>\<close> to the source address of the datagram if and only if the text
  of the datagram starts with the four characters \<^verbatim>\<open>ping\<close>. For any other text, a
  decoded ack among them, it prints the record and does nothing else.
\<close>

theorem listening_records_and_acks:
  assumes "\<forall>d\<in>set ds. utf8 (fst d)" and "encode peer_id = Inr p"
  shows "encode (ascii ''ack from '' @ peer_id) = Inr (''ack from '' @ p)
    \<and> listening names peer_id (dgrams ds @ evs) =
        (concat (map (\<lambda>d. heard peer_id d
                        # (if startswith (text_of (fst d)) (ascii ''ping'')
                           then [Send (''ack from '' @ p) (py_addr (snd d))] else []))
                     ds)
           @ fst (listening names peer_id evs),
         snd (listening names peer_id evs))
    \<and> filter is_send (fst (listening names peer_id (dgrams ds @ Quiet # rest))) =
        map (\<lambda>d. Send (''ack from '' @ p) (py_addr (snd d)))
            (filter (\<lambda>d. take 4 (text_of (fst d)) = ascii ''ping'') ds)
    \<and> filter (\<lambda>e. \<not> is_send e) (fst (listening names peer_id (dgrams ds @ Quiet # rest))) =
        map (heard peer_id) ds"
proof (intro conjI)
  show "encode (ascii ''ack from '' @ peer_id) = Inr (''ack from '' @ p)"
    using assms(2) by (simp add: encode_literal_then ascii_bytes_def)
  show "listening names peer_id (dgrams ds @ evs) =
        (concat (map (\<lambda>d. heard peer_id d
                        # (if startswith (text_of (fst d)) (ascii ''ping'')
                           then [Send (''ack from '' @ p) (py_addr (snd d))] else []))
                     ds)
           @ fst (listening names peer_id evs),
         snd (listening names peer_id evs))"
    using listening_run [OF assms, where evs = evs and names = names]
    by (simp add: pinged_def)
  have run: "fst (listening names peer_id (dgrams ds @ Quiet # rest)) =
      concat (map (\<lambda>d. heard peer_id d
                        # (if pinged d then [Send (''ack from '' @ p) (py_addr (snd d))] else []))
                  ds)"
    using listening_run [OF assms, where evs = "Quiet # rest" and names = names]
    by (simp add: ok_def)
  have "length (ascii ''ping'') = 4" by (simp add: ascii_def)
  then have pinged: "pinged d \<longleftrightarrow> take 4 (text_of (fst d)) = ascii ''ping''" for d
    by (simp only: pinged_def startswith_def)
  show "filter is_send (fst (listening names peer_id (dgrams ds @ Quiet # rest))) =
        map (\<lambda>d. Send (''ack from '' @ p) (py_addr (snd d)))
            (filter (\<lambda>d. take 4 (text_of (fst d)) = ascii ''ping'') ds)"
    unfolding run pinged [symmetric] by (induction ds) (simp_all add: heard_def)
  show "filter (\<lambda>e. \<not> is_send e) (fst (listening names peer_id (dgrams ds @ Quiet # rest))) =
        map (heard peer_id) ds"
    unfolding run by (induction ds) (simp_all add: heard_def)
qed

theorem listening_records_and_acks_witness:
  "filter is_send (fst (listening no_names (ascii ''peer1'')
      (dgrams [(''ping from peer2'', ((10, 0, 0, 2), 40002)),
               (''ack from peer2'', ((10, 0, 0, 2), 40002)),
               (''pingpong'', ((10, 0, 0, 3), 40003))] @ Quiet # []))) =
     [Send ''ack from peer1'' (ascii ''10.0.0.2'', 40002),
      Send ''ack from peer1'' (ascii ''10.0.0.3'', 40003)]"
proof -
  let ?ds = "[(''ping from peer2'', ((10, 0, 0, 2), 40002)),
              (''ack from peer2'', ((10, 0, 0, 2), 40002)),
              (''pingpong'', ((10, 0, 0, 3), 40003))] :: (bytes \<times> sockaddr) list"
  have u: "\<forall>d\<in>set ?ds. utf8 (fst d)" by (simp add: utf8_ascii ascii_bytes_def)
  have e: "encode (ascii ''peer1'') = Inr ''peer1''"
    by (simp add: encode_ascii ascii_bytes_def)
  from listening_records_and_acks
    [OF u e, where rest = "[]" and evs = "[]" and names = no_names]
  have "filter is_send (fst (listening no_names (ascii ''peer1'') (dgrams ?ds @ Quiet # []))) =
        map (\<lambda>d. Send (''ack from '' @ ''peer1'') (py_addr (snd d)))
            (filter (\<lambda>d. take 4 (text_of (fst d)) = ascii ''ping'') ?ds)"
    by blast
  also have "\<dots> = [Send ''ack from peer1'' (ascii ''10.0.0.2'', 40002),
                    Send ''ack from peer1'' (ascii ''10.0.0.3'', 40003)]"
    by (simp add: text_of_ascii ascii_bytes_def ascii_def py_addr_def host_str_def
        str_nat.simps)
  finally show ?thesis .
qed

text \<open>
  C7, as the specification states it, does not hold: in \<open>Punching\<close> the burst is sent
  only if \<^verbatim>\<open>sendto\<close> accepts the address learned from the introduction. The introduction
  \<^verbatim>\<open>peer2 10.0.0.2 70000\<close> is well formed (three fields, an integer port), the peer
  prints what it learned and enters the loop of lines 23 to 25, and the first \<^verbatim>\<open>sendto\<close>
  raises \<^verbatim>\<open>OverflowError\<close>, the port not being in 0..65535: no ping is sent. The host
  is numeric, so no name service is asked, and the same happens in every environment.
\<close>

theorem punching_port_counterexample:
  "peer_main no_names (ascii ''peer1'') (ascii ''10.0.0.1'') 9999
     [Datagram ''peer2 10.0.0.2 70000'' ((10, 0, 0, 1), 9999)] =
     ([Send ''peer1'' (ascii ''10.0.0.1'', 9999),
       learned (ascii ''peer1'') (ascii ''peer2'', ascii ''10.0.0.2'', 70000)],
      Inl (Crashed OverflowError))
   \<and> punching no_names (ascii ''peer1'') (ascii ''10.0.0.2'', 70000) =
     ([], Inl (Crashed OverflowError))"
proof -
  have e: "encode (ascii ''peer1'') = Inr ''peer1''"
    by (simp add: encode_ascii ascii_bytes_def)
  have s: "getsockaddrarg no_names (ascii ''10.0.0.1'', 9999) = None"
    by (simp add: getsockaddrarg_numeric [OF numeric_10_0_0_1])
  have a: "awaiting [Datagram ''peer2 10.0.0.2 70000'' ((10, 0, 0, 1), 9999)] =
      ([], Inr ((ascii ''peer2'', ascii ''10.0.0.2'', 70000), []))"
    by (simp add: concrete_peer)
  have r: "getsockaddrarg no_names (ascii ''10.0.0.2'', 70000) = Some OverflowError"
    by (simp add: getsockaddrarg_numeric [OF numeric_10_0_0_2])
  show ?thesis
    using peer_main_refused [OF e s a r] punching_refused [OF e r] by simp
qed

text \<open>
  C7, amended. Let the peer have parsed its introduction. If \<^verbatim>\<open>sendto\<close> accepts the host
  and port learned from it, the peer prints what it learned and sends three datagrams,
  each followed by a sleep of half a second, each with the payload
  \<^verbatim>\<open>ping from <peer_id>\<close> for the peer's own id, each to that host and port; then it
  sets the timeout. The burst is the same whatever is waiting to be received (\<open>rest\<close>):
  \<open>punching\<close> reads nothing. If \<^verbatim>\<open>sendto\<close> refuses the address, the first \<^verbatim>\<open>sendto\<close>
  raises: no ping is sent and the run ends with that exception, the learned line being
  the last thing the peer did. A numeric host with a port in 0..65535 is accepted in
  every environment; a port outside 0..65535 is refused in every environment.
\<close>

theorem punching_three_pings_or_none:
  assumes "encode peer_id = Inr reg"
    and "getsockaddrarg names (server_ip, server_port) = None"
    and "awaiting evs = ([], Inr ((other_id, other_ip, other_port), rest))"
  shows "encode (ascii ''ping from '' @ peer_id) = Inr (''ping from '' @ reg)
    \<and> (getsockaddrarg names (other_ip, other_port) = None \<longrightarrow>
         punching names peer_id (other_ip, other_port) =
           ([Send (''ping from '' @ reg) (other_ip, other_port), Sleep_ms 500,
             Send (''ping from '' @ reg) (other_ip, other_port), Sleep_ms 500,
             Send (''ping from '' @ reg) (other_ip, other_port), Sleep_ms 500], Inr ())
         \<and> (\<exists>after.
               peer_main names peer_id server_ip server_port evs =
                 ([Send reg (server_ip, server_port),
                   learned peer_id (other_id, other_ip, other_port),
                   Send (''ping from '' @ reg) (other_ip, other_port), Sleep_ms 500,
                   Send (''ping from '' @ reg) (other_ip, other_port), Sleep_ms 500,
                   Send (''ping from '' @ reg) (other_ip, other_port), Sleep_ms 500,
                   Settimeout 5] @ after,
                  snd (listening names peer_id rest))))
    \<and> (getsockaddrarg names (other_ip, other_port) = Some e \<longrightarrow>
         punching names peer_id (other_ip, other_port) = ([], Inl (Crashed e))
         \<and> peer_main names peer_id server_ip server_port evs =
             ([Send reg (server_ip, server_port),
               learned peer_id (other_id, other_ip, other_port)],
              Inl (Crashed e)))
    \<and> (numeric_host other_ip \<and> 0 \<le> other_port \<and> other_port \<le> 65535 \<longrightarrow>
         getsockaddrarg names (other_ip, other_port) = None)
    \<and> (other_port < 0 \<or> 65535 < other_port \<longrightarrow>
         getsockaddrarg names (other_ip, other_port) \<noteq> None)"
proof (intro conjI impI)
  show "encode (ascii ''ping from '' @ peer_id) = Inr (''ping from '' @ reg)"
    using assms(1) by (simp add: encode_literal_then ascii_bytes_def)
  show "punching names peer_id (other_ip, other_port) =
           ([Send (''ping from '' @ reg) (other_ip, other_port), Sleep_ms 500,
             Send (''ping from '' @ reg) (other_ip, other_port), Sleep_ms 500,
             Send (''ping from '' @ reg) (other_ip, other_port), Sleep_ms 500], Inr ())"
    if "getsockaddrarg names (other_ip, other_port) = None"
    by (rule punching_ok [OF assms(1) that])
  show "\<exists>after.
               peer_main names peer_id server_ip server_port evs =
                 ([Send reg (server_ip, server_port),
                   learned peer_id (other_id, other_ip, other_port),
                   Send (''ping from '' @ reg) (other_ip, other_port), Sleep_ms 500,
                   Send (''ping from '' @ reg) (other_ip, other_port), Sleep_ms 500,
                   Send (''ping from '' @ reg) (other_ip, other_port), Sleep_ms 500,
                   Settimeout 5] @ after,
                  snd (listening names peer_id rest))"
    if "getsockaddrarg names (other_ip, other_port) = None"
    unfolding peer_main_run [OF assms that] by blast
  show "punching names peer_id (other_ip, other_port) = ([], Inl (Crashed e))"
    if "getsockaddrarg names (other_ip, other_port) = Some e"
    by (rule punching_refused [OF assms(1) that])
  show "peer_main names peer_id server_ip server_port evs =
             ([Send reg (server_ip, server_port),
               learned peer_id (other_id, other_ip, other_port)],
              Inl (Crashed e))"
    if "getsockaddrarg names (other_ip, other_port) = Some e"
    by (rule peer_main_refused [OF assms that])
  show "getsockaddrarg names (other_ip, other_port) = None"
    if "numeric_host other_ip \<and> 0 \<le> other_port \<and> other_port \<le> 65535"
    using that by (simp add: getsockaddrarg_numeric)
  show "getsockaddrarg names (other_ip, other_port) \<noteq> None"
    if "other_port < 0 \<or> 65535 < other_port"
    using that by (rule getsockaddrarg_port)
qed

theorem punching_three_pings_or_none_witness:
  "punching no_names (ascii ''peer1'') (ascii ''10.0.0.2'', 40002) =
     ([Send ''ping from peer1'' (ascii ''10.0.0.2'', 40002), Sleep_ms 500,
       Send ''ping from peer1'' (ascii ''10.0.0.2'', 40002), Sleep_ms 500,
       Send ''ping from peer1'' (ascii ''10.0.0.2'', 40002), Sleep_ms 500], Inr ())"
proof -
  have e: "encode (ascii ''peer1'') = Inr ''peer1''"
    by (simp add: encode_ascii ascii_bytes_def)
  have s: "getsockaddrarg no_names (ascii ''10.0.0.1'', 9999) = None"
    by (simp add: getsockaddrarg_numeric [OF numeric_10_0_0_1])
  have a: "awaiting [Quiet, Datagram ''peer2 10.0.0.2 40002'' ((10, 0, 0, 1), 9999),
                     Datagram ''ping from peer2'' ((10, 0, 0, 2), 40002)] =
      ([], Inr ((ascii ''peer2'', ascii ''10.0.0.2'', 40002),
                [Datagram ''ping from peer2'' ((10, 0, 0, 2), 40002)]))"
    by (simp add: concrete_peer)
  have n: "numeric_host (ascii ''10.0.0.2'') \<and> (0::int) \<le> 40002 \<and> (40002::int) \<le> 65535"
    by (simp add: numeric_10_0_0_2)
  from punching_three_pings_or_none [OF e s a] n
  show ?thesis by simp
qed

text \<open>
  C8, as the specification states it, does not hold: the timeout is not the only way
  out of the \<open>Listening\<close> loop. A datagram that is not UTF-8 makes \<^verbatim>\<open>decode\<close> raise
  \<^verbatim>\<open>UnicodeDecodeError\<close>, which the handler for \<^verbatim>\<open>socket.timeout\<close> does not catch: the
  loop is left at once, before any quiet window, and the socket is not closed.
\<close>

theorem listening_exit_counterexample:
  "listening no_names (ascii ''peer1'') [Datagram [CHR 0xFF] ((10, 0, 0, 2), 40002), Quiet] =
     ([], Inl (Crashed UnicodeDecodeError))"
  by (simp add: listening_not_utf8 [OF not_utf8_FF] raise_def)

text \<open>
  C8, amended. The \<open>Listening\<close> loop ends normally exactly when a receive window passes
  without a datagram, all datagrams received until then being UTF-8; the timeout is
  caught, and a peer that got that far then closes its socket and exits normally. The
  loop ends in no other way than this one, being still in \<^verbatim>\<open>recvfrom\<close>, or the
  \<^verbatim>\<open>UnicodeDecodeError\<close> of a datagram that is not UTF-8.
\<close>

theorem listening_ends_on_timeout:
  assumes "encode peer_id = Inr p"
  shows "(snd (listening names peer_id evs) = Inr () \<longleftrightarrow>
           (\<exists>ds rest. evs = dgrams ds @ Quiet # rest \<and> (\<forall>d\<in>set ds. utf8 (fst d))))
    \<and> (snd (listening names peer_id evs) = Inr ()
         \<or> snd (listening names peer_id evs) = Inl Blocked
         \<or> snd (listening names peer_id evs) = Inl (Crashed UnicodeDecodeError))
    \<and> (getsockaddrarg names (server_ip, server_port) = None
         \<and> awaiting evs0 = ([], Inr ((other_id, other_ip, other_port), evs))
         \<and> getsockaddrarg names (other_ip, other_port) = None
         \<and> snd (listening names peer_id evs) = Inr () \<longrightarrow>
         (\<exists>tr. peer_main names peer_id server_ip server_port evs0 = (tr @ [Close], Inr ())))"
proof (intro conjI impI)
  show "snd (listening names peer_id evs) = Inr () \<longleftrightarrow>
           (\<exists>ds rest. evs = dgrams ds @ Quiet # rest \<and> (\<forall>d\<in>set ds. utf8 (fst d)))"
  proof
    assume "snd (listening names peer_id evs) = Inr ()"
    with listening_cases [OF assms, where evs = evs and names = names]
    show "\<exists>ds rest. evs = dgrams ds @ Quiet # rest \<and> (\<forall>d\<in>set ds. utf8 (fst d))"
      by auto
  next
    assume "\<exists>ds rest. evs = dgrams ds @ Quiet # rest \<and> (\<forall>d\<in>set ds. utf8 (fst d))"
    then show "snd (listening names peer_id evs) = Inr ()"
      using listening_outcome(2) [OF _ assms] by blast
  qed
  show "snd (listening names peer_id evs) = Inr ()
         \<or> snd (listening names peer_id evs) = Inl Blocked
         \<or> snd (listening names peer_id evs) = Inl (Crashed UnicodeDecodeError)"
    using listening_cases [OF assms, where evs = evs and names = names] by blast
  assume h: "getsockaddrarg names (server_ip, server_port) = None
         \<and> awaiting evs0 = ([], Inr ((other_id, other_ip, other_port), evs))
         \<and> getsockaddrarg names (other_ip, other_port) = None
         \<and> snd (listening names peer_id evs) = Inr ()"
  then have "peer_main names peer_id server_ip server_port evs0 =
     (([Send p (server_ip, server_port),
       learned peer_id (other_id, other_ip, other_port),
       Send (''ping from '' @ p) (other_ip, other_port), Sleep_ms 500,
       Send (''ping from '' @ p) (other_ip, other_port), Sleep_ms 500,
       Send (''ping from '' @ p) (other_ip, other_port), Sleep_ms 500,
       Settimeout 5]
      @ fst (listening names peer_id evs)) @ [Close], Inr ())"
    using peer_main_run
      [OF assms, where names = names and server_ip = server_ip and server_port = server_port
         and evs = evs0 and other_id = other_id and other_ip = other_ip
         and other_port = other_port and rest = evs]
    by simp
  then show "\<exists>tr. peer_main names peer_id server_ip server_port evs0 = (tr @ [Close], Inr ())"
    by blast
qed

theorem listening_ends_on_timeout_witness:
  "snd (listening no_names (ascii ''peer1'')
      (dgrams [(''ack from peer2'', ((10, 0, 0, 2), 40002))] @ Quiet
       # [Datagram ''ping from peer2'' ((10, 0, 0, 2), 40002)])) = Inr ()"
proof -
  let ?ds = "[(''ack from peer2'', ((10, 0, 0, 2), 40002))] :: (bytes \<times> sockaddr) list"
  have u: "\<forall>d\<in>set ?ds. utf8 (fst d)" by (simp add: utf8_ascii ascii_bytes_def)
  have e: "encode (ascii ''peer1'') = Inr ''peer1''"
    by (simp add: encode_ascii ascii_bytes_def)
  from listening_ends_on_timeout
    [OF e, where names = no_names
       and evs = "dgrams ?ds @ Quiet # [Datagram ''ping from peer2'' ((10, 0, 0, 2), 40002)]"]
    u
  show ?thesis by blast
qed

section \<open>The claim about malformed datagrams\<close>

text \<open>
  C2, as the specification states it, does not hold: neither role discards a datagram
  that does not decode. The server receives a datagram that is not UTF-8 and then two
  registrations: \<^verbatim>\<open>decode\<close> raises on the first, the server ends there, and the two peers
  that it would otherwise have introduced are never served.
\<close>

theorem malformed_registration_counterexample:
  "server_main no_names [([CHR 0xFF], ((10, 0, 0, 9), 40009)), (''peer1'', ((10, 0, 0, 1), 40001)),
                (''peer2'', ((10, 0, 0, 2), 40002))] =
     ([], Inl (Crashed UnicodeDecodeError))
   \<and> snd (server_main no_names [(''peer1'', ((10, 0, 0, 1), 40001)),
                        (''peer2'', ((10, 0, 0, 2), 40002))]) = Inr ()"
proof -
  let ?p1 = "(''peer1'', ((10, 0, 0, 1), 40001)) :: bytes \<times> sockaddr"
  let ?bad = "([CHR 0xFF], ((10, 0, 0, 9), 40009)) :: bytes \<times> sockaddr"
  let ?p2 = "(''peer2'', ((10, 0, 0, 2), 40002)) :: bytes \<times> sockaddr"
  have "server_loop [] (?bad # [?p1, ?p2]) = raise UnicodeDecodeError"
    using not_utf8_FF by (intro server_loop_not_utf8) simp_all
  then have "server_main no_names [?bad, ?p1, ?p2] = ([], Inl (Crashed UnicodeDecodeError))"
    by (simp add: server_main_def raise_def)
  moreover have "snd (server_main no_names ([?p1] @ ?p2 # [])) = Inr ()"
    using server_main_two_ids
      [where pre = "[?p1]" and a = "ascii ''peer1''" and d = ?p2 and b = "ascii ''peer2''"
         and rest = "[]" and names = no_names]
    by (auto simp: concrete)
  ultimately show ?thesis by simp
qed

text \<open>
  C2, amended. No datagram is discarded for being malformed. The server ends with
  \<^verbatim>\<open>UnicodeDecodeError\<close> exactly when it receives, while it waits for registrations, a
  datagram that is not UTF-8, and it ends abnormally in no other way; the peer in
  \<open>Listening\<close> likewise ends with \<^verbatim>\<open>UnicodeDecodeError\<close> exactly when it receives a
  datagram that is not UTF-8; the peer awaiting its introduction ends with the error of
  the parse exactly when the datagram it receives is no well-formed introduction. A
  datagram that is UTF-8 crashes neither the server's loop nor the \<open>Listening\<close> loop.
\<close>

theorem malformed_datagram_ends_the_role:
  "(snd (server_main names ds) = Inl (Crashed e) \<longleftrightarrow>
      e = UnicodeDecodeError
      \<and> (\<exists>pre d rest. ds = pre @ d # rest \<and> \<not> utf8 (fst d)
            \<and> snd (server_main names pre) = Inl Blocked))
   \<and> (encode peer_id = Inr p \<longrightarrow>
        (snd (listening names peer_id evs) = Inl (Crashed e) \<longleftrightarrow>
           e = UnicodeDecodeError
           \<and> (\<exists>heard_before data src rest.
                 evs = dgrams heard_before @ Datagram data src # rest
                 \<and> (\<forall>d\<in>set heard_before. utf8 (fst d)) \<and> \<not> utf8 data)))
   \<and> (snd (awaiting (Datagram data src # rest)) = Inl (Crashed e) \<longleftrightarrow>
        parse_introduction (take 1024 data) = Inl e)"
proof (intro conjI impI)
  have blocked: "snd (server_main names pre) = Inl Blocked \<longleftrightarrow> snd (server_loop [] pre) = Inl Blocked"
    for pre
    by (simp add: server_main_outcome split: sum.splits)
  have "snd (server_main names ds) = Inl (Crashed e) \<longleftrightarrow> snd (server_loop [] ds) = Inl (Crashed e)"
    by (simp add: server_main_outcome split: sum.splits)
  then show "snd (server_main names ds) = Inl (Crashed e) \<longleftrightarrow>
      e = UnicodeDecodeError
      \<and> (\<exists>pre d rest. ds = pre @ d # rest \<and> \<not> utf8 (fst d)
            \<and> snd (server_main names pre) = Inl Blocked)"
    unfolding blocked by (simp add: server_loop_crash_iff)
next
  assume enc: "encode peer_id = Inr p"
  show "snd (listening names peer_id evs) = Inl (Crashed e) \<longleftrightarrow>
           e = UnicodeDecodeError
           \<and> (\<exists>heard_before data src rest.
                 evs = dgrams heard_before @ Datagram data src # rest
                 \<and> (\<forall>d\<in>set heard_before. utf8 (fst d)) \<and> \<not> utf8 data)"
  proof
    assume crash: "snd (listening names peer_id evs) = Inl (Crashed e)"
    from listening_cases [OF enc, where evs = evs and names = names]
    consider "snd (listening names peer_id evs) = Inl Blocked"
      | "snd (listening names peer_id evs) = Inr ()"
      | hb data src rest where "evs = dgrams hb @ Datagram data src # rest"
          "\<forall>d\<in>set hb. utf8 (fst d)" "\<not> utf8 data"
          "snd (listening names peer_id evs) = Inl (Crashed UnicodeDecodeError)"
      by blast
    then show "e = UnicodeDecodeError
           \<and> (\<exists>heard_before data src rest.
                 evs = dgrams heard_before @ Datagram data src # rest
                 \<and> (\<forall>d\<in>set heard_before. utf8 (fst d)) \<and> \<not> utf8 data)"
    proof cases
      case 1
      with crash show ?thesis by simp
    next
      case 2
      with crash show ?thesis by simp
    next
      case 3
      from 3(4) crash have "e = UnicodeDecodeError" by simp
      with 3(1,2,3) show ?thesis by blast
    qed
  next
    assume "e = UnicodeDecodeError
           \<and> (\<exists>heard_before data src rest.
                 evs = dgrams heard_before @ Datagram data src # rest
                 \<and> (\<forall>d\<in>set heard_before. utf8 (fst d)) \<and> \<not> utf8 data)"
    then show "snd (listening names peer_id evs) = Inl (Crashed e)"
      using listening_outcome(3) [OF _ enc] by blast
  qed
next
  show "snd (awaiting (Datagram data src # rest)) = Inl (Crashed e) \<longleftrightarrow>
        parse_introduction (take 1024 data) = Inl e"
    by (cases "parse_introduction (take 1024 data)") (simp_all add: awaiting_datagram)
qed

theorem malformed_datagram_ends_the_role_witness:
  "snd (server_main no_names [(''peer1'', ((10, 0, 0, 1), 40001)), ([CHR 0xFF], ((10, 0, 0, 9), 40009)),
                     (''peer2'', ((10, 0, 0, 2), 40002))]) =
     Inl (Crashed UnicodeDecodeError)"
proof -
  let ?p1 = "(''peer1'', ((10, 0, 0, 1), 40001)) :: bytes \<times> sockaddr"
  let ?bad = "([CHR 0xFF], ((10, 0, 0, 9), 40009)) :: bytes \<times> sockaddr"
  let ?p2 = "(''peer2'', ((10, 0, 0, 2), 40002)) :: bytes \<times> sockaddr"
  have "snd (server_main no_names [?p1]) = Inl Blocked"
    using server_main_same_id [where pre = "[?p1]" and a = "ascii ''peer1''" and names = no_names]
    by (simp add: concrete)
  then have "[?p1, ?bad, ?p2] = [?p1] @ ?bad # [?p2] \<and> \<not> utf8 (fst ?bad)
      \<and> snd (server_main no_names [?p1]) = Inl Blocked"
    using not_utf8_FF by simp
  then have "\<exists>pre d rest. [?p1, ?bad, ?p2] = pre @ d # rest \<and> \<not> utf8 (fst d)
      \<and> snd (server_main no_names pre) = Inl Blocked"
    by blast
  with malformed_datagram_ends_the_role
    [where ds = "[?p1, ?bad, ?p2]" and e = UnicodeDecodeError and names = no_names]
  show ?thesis by blast
qed

end
